theory Spec2Isabelle
  imports Complex_Main "HOL-Library.Sublist"
begin

section \<open>Byte strings and the string helpers of the Go library\<close>

text \<open>
  A Go string is a sequence of bytes; \<open>string\<close> (a list of 8-bit characters) is the
  same thing.  The program calls \<open>strings.Split\<close>, \<open>strings.TrimSpace\<close>,
  \<open>strings.Contains\<close>, \<open>strings.Fields\<close>, \<open>strconv.ParseFloat\<close> and the
  \<open>regexp\<close> package.  They belong to the Go library, not to the repository; they are
  written here after their documented behaviour, on bytes, including the UTF-8
  encodings of the white space characters beyond ASCII.
\<close>

definition newline :: char where
  "newline = CHR 0x0A"

definition pipe :: char where
  "pipe = CHR ''|''"

text \<open>\<open>strings.Split(s, "\n")\<close>: the pieces between the line feeds, all of them
  (a text with \<open>n\<close> line feeds gives \<open>n + 1\<close> pieces, the empty text gives one empty piece).\<close>

fun Split :: "string \<Rightarrow> char \<Rightarrow> string list" where
  "Split [] sep = [[]]"
| "Split (c # cs) sep =
     (if c = sep then [] # Split cs sep
      else (case Split cs sep of
              [] \<Rightarrow> [[c]]
            | piece # pieces \<Rightarrow> (c # piece) # pieces))"

text \<open>\<open>strings.Contains(s, substr)\<close>: \<open>substr\<close> occurs in \<open>s\<close> as a run of bytes.\<close>

fun Contains :: "string \<Rightarrow> string \<Rightarrow> bool" where
  "Contains [] substr = (substr = [])"
| "Contains (c # cs) substr = (prefix substr (c # cs) \<or> Contains cs substr)"

text \<open>
  \<open>unicode.IsSpace\<close>, on the UTF-8 encoding: the six ASCII spaces (tab, line feed,
  vertical tab, form feed, carriage return, space), U+0085, U+00A0, U+1680,
  U+2000 to U+200A, U+2028, U+2029, U+202F, U+205F and U+3000.  No encoding in the list
  is a prefix or a suffix of another, and none starts or ends inside the encoding of
  another character, so looking for them at the head (or the end) of the bytes
  is what decoding the first (or last) character and testing it does.
\<close>

definition spaceSeqs :: "string list" where
  "spaceSeqs =
    [[CHR 0x09], [CHR 0x0A], [CHR 0x0B], [CHR 0x0C], [CHR 0x0D], [CHR 0x20],
     [CHR 0xC2, CHR 0x85], [CHR 0xC2, CHR 0xA0],
     [CHR 0xE1, CHR 0x9A, CHR 0x80],
     [CHR 0xE2, CHR 0x80, CHR 0x80], [CHR 0xE2, CHR 0x80, CHR 0x81],
     [CHR 0xE2, CHR 0x80, CHR 0x82], [CHR 0xE2, CHR 0x80, CHR 0x83],
     [CHR 0xE2, CHR 0x80, CHR 0x84], [CHR 0xE2, CHR 0x80, CHR 0x85],
     [CHR 0xE2, CHR 0x80, CHR 0x86], [CHR 0xE2, CHR 0x80, CHR 0x87],
     [CHR 0xE2, CHR 0x80, CHR 0x88], [CHR 0xE2, CHR 0x80, CHR 0x89],
     [CHR 0xE2, CHR 0x80, CHR 0x8A],
     [CHR 0xE2, CHR 0x80, CHR 0xA8], [CHR 0xE2, CHR 0x80, CHR 0xA9],
     [CHR 0xE2, CHR 0x80, CHR 0xAF],
     [CHR 0xE2, CHR 0x81, CHR 0x9F],
     [CHR 0xE3, CHR 0x80, CHR 0x80]]"

text \<open>The number of bytes of the white space character at the head of \<open>s\<close>, 0 when
  \<open>s\<close> does not start with one; the same at the end of \<open>s\<close>.\<close>

definition spaceWidth :: "string \<Rightarrow> nat" where
  "spaceWidth s = (case find (\<lambda>q. prefix q s) spaceSeqs of None \<Rightarrow> 0 | Some q \<Rightarrow> length q)"

definition spaceWidthEnd :: "string \<Rightarrow> nat" where
  "spaceWidthEnd s = (case find (\<lambda>q. suffix q s) spaceSeqs of None \<Rightarrow> 0 | Some q \<Rightarrow> length q)"

lemma spaceWidth_le: "spaceWidth s \<le> length s"
  by (auto simp: spaceWidth_def prefix_def find_Some_iff split: option.splits)

lemma spaceWidthEnd_le: "spaceWidthEnd s \<le> length s"
  by (auto simp: spaceWidthEnd_def suffix_def find_Some_iff split: option.splits)

function TrimLeftSpace :: "string \<Rightarrow> string" where
  "TrimLeftSpace s = (if spaceWidth s = 0 then s else TrimLeftSpace (drop (spaceWidth s) s))"
  by pat_completeness auto
termination
proof (relation "measure length")
  fix s :: string
  assume "spaceWidth s \<noteq> 0"
  with spaceWidth_le [of s] show "(drop (spaceWidth s) s, s) \<in> measure length"
    by auto
qed simp

function TrimRightSpace :: "string \<Rightarrow> string" where
  "TrimRightSpace s =
     (if spaceWidthEnd s = 0 then s else TrimRightSpace (take (length s - spaceWidthEnd s) s))"
  by pat_completeness auto
termination
proof (relation "measure length")
  fix s :: string
  assume "spaceWidthEnd s \<noteq> 0"
  with spaceWidthEnd_le [of s]
  show "(take (length s - spaceWidthEnd s) s, s) \<in> measure length"
    by auto
qed simp

declare TrimLeftSpace.simps [simp del] TrimRightSpace.simps [simp del]

text \<open>\<open>strings.TrimSpace(s)\<close>: \<open>s\<close> without its leading and trailing white space.\<close>

definition TrimSpace :: "string \<Rightarrow> string" where
  "TrimSpace s = TrimRightSpace (TrimLeftSpace s)"

text \<open>\<open>strings.Fields(s)\<close>: the maximal runs of bytes of \<open>s\<close> that hold no white space
  character, in order.  \<open>cur\<close> is the field being read.\<close>

function fieldsFrom :: "string \<Rightarrow> string \<Rightarrow> string list" where
  "fieldsFrom cur s =
     (case s of
        [] \<Rightarrow> (if cur = [] then [] else [cur])
      | c # cs \<Rightarrow>
          if spaceWidth s = 0 then fieldsFrom (cur @ [c]) cs
          else (if cur = [] then [] else [cur]) @ fieldsFrom [] (drop (spaceWidth s) s))"
  by pat_completeness auto
termination
proof (relation "measure (\<lambda>(cur, s). length s)")
  fix cur s :: string and c cs
  assume "s = c # cs" "spaceWidth s \<noteq> 0"
  then show "(([], drop (spaceWidth s) s), (cur, s)) \<in> measure (\<lambda>(cur, s). length s)"
    by auto
qed auto

declare fieldsFrom.simps [simp del]

definition Fields :: "string \<Rightarrow> string list" where
  "Fields s = fieldsFrom [] s"

section \<open>float64 values and \<open>strconv.ParseFloat\<close>\<close>

text \<open>
  A float64 is kept by its exact value: \<open>Fin q\<close> is the finite float64 equal to the
  rational \<open>q\<close> (with \<open>Fin 0\<close> the positive zero), \<open>NegZero\<close> the negative zero, and
  the two infinities and the not-a-number.  Go's comparison \<open>v == 0\<close> holds of both zeros.
\<close>

datatype float64 = Fin rat | NegZero | PosInf | NegInf | NaN

definition isZero :: "float64 \<Rightarrow> bool" where
  "isZero v = (v = Fin 0 \<or> v = NegZero)"

datatype NumError = ErrSyntax | ErrRange

text \<open>The number of binary digits of a positive integer.\<close>

function bitlen :: "int \<Rightarrow> int" where
  "bitlen n = (if n \<le> 0 then 0 else 1 + bitlen (n div 2))"
  by pat_completeness auto
termination
  by (relation "measure nat") auto

declare bitlen.simps [simp del]

text \<open>\<open>n / d\<close> rounded to the nearest integer, a tie to the even one
  (\<open>0 \<le> n\<close> and \<open>0 < d\<close>).\<close>

definition roundHalfEven :: "int \<Rightarrow> int \<Rightarrow> int" where
  "roundHalfEven n d =
     (let q = n div d; r = n mod d
      in if 2 * r < d then q else if d < 2 * r then q + 1 else if even q then q else q + 1)"

text \<open>Numerator and denominator of \<open>(n / d) / 2 ^ e\<close>.\<close>

definition scale2 :: "int \<Rightarrow> int \<Rightarrow> int \<Rightarrow> int \<times> int" where
  "scale2 n d e = (if 0 \<le> e then (n, d * 2 ^ nat e) else (n * 2 ^ nat (- e), d))"

definition pow2 :: "int \<Rightarrow> rat" where
  "pow2 e = (if 0 \<le> e then 2 ^ nat e else 1 / 2 ^ nat (- e))"

text \<open>
  The float64 nearest to the positive rational \<open>n / d\<close> (IEEE 754 binary64, round to
  nearest, ties to even): a 53-bit significand \<open>m\<close> and an exponent \<open>e \<ge> -1074\<close>, the
  value \<open>m * 2 ^ e\<close>.  \<open>None\<close> when the rounded value exceeds the largest float64.
  A value below half the smallest subnormal rounds to 0.
\<close>

definition nearest64 :: "int \<Rightarrow> int \<Rightarrow> rat option" where
  "nearest64 n d =
     (let k = bitlen n - bitlen d;
          l = (case scale2 n d k of (a, b) \<Rightarrow> if b \<le> a then k else k - 1);
          e = max (l - 52) (- 1074);
          m = (case scale2 n d e of (a, b) \<Rightarrow> roundHalfEven a b)
      in if 971 < e \<or> (e = 971 \<and> 2 ^ 53 \<le> m) then None
         else Some (of_int m * pow2 e))"

text \<open>The float64 of sign \<open>neg\<close> and magnitude \<open>n / d\<close>; out of range is \<open>ErrRange\<close>.\<close>

definition toFloat64 :: "bool \<Rightarrow> int \<Rightarrow> int \<Rightarrow> NumError + float64" where
  "toFloat64 neg n d =
     (if n = 0 then Inr (if neg then NegZero else Fin 0)
      else (case nearest64 n d of
              None \<Rightarrow> Inl ErrRange
            | Some q \<Rightarrow>
                Inr (if q = 0 then (if neg then NegZero else Fin 0)
                     else Fin (if neg then - q else q))))"

text \<open>The float64 that a decimal constant \<open>q\<close> of the Go source denotes.\<close>

definition float64_of_rat :: "rat \<Rightarrow> NumError + float64" where
  "float64_of_rat q = (case quotient_of q of (a, b) \<Rightarrow> toFloat64 (a < 0) \<bar>a\<bar> b)"

subsection \<open>The syntax of a number: \<open>readFloat\<close>, \<open>underscoreOK\<close>, \<open>special\<close>\<close>

definition isDigit :: "char \<Rightarrow> bool" where
  "isDigit c = (48 \<le> (of_char c :: int) \<and> (of_char c :: int) \<le> 57)"

text \<open>\<open>lower(c)\<close> of strconv is \<open>c | 0x20\<close>.\<close>

definition lower :: "char \<Rightarrow> char" where
  "lower c = (if ((of_char c :: int) div 32) mod 2 = 1 then c else char_of ((of_char c :: int) + 32))"

definition isHexLetter :: "char \<Rightarrow> bool" where
  "isHexLetter c = (97 \<le> (of_char (lower c) :: int) \<and> (of_char (lower c) :: int) \<le> 102)"

record digitState =
  mantissa :: int
  nd :: int
  dp :: int
  sawdot :: bool
  sawdigits :: bool
  underscores :: bool

text \<open>
  The digit loop of \<open>readFloat\<close>.  Go keeps the first 19 digits (16 in base 16) and a
  flag for the rest, and its conversion still returns the correctly rounded float64 of
  the whole number; the model keeps every digit, so its \<open>nd\<close> is Go's \<open>nd\<close> and
  its \<open>mantissa\<close> has \<open>nd\<close> digits.
\<close>

fun readDigits :: "int \<Rightarrow> string \<Rightarrow> digitState \<Rightarrow> digitState \<times> string" where
  "readDigits base [] st = (st, [])"
| "readDigits base (c # cs) st =
     (if c = CHR ''_'' then readDigits base cs (st\<lparr>underscores := True\<rparr>)
      else if c = CHR ''.'' then
        (if sawdot st then (st, c # cs)
         else readDigits base cs (st\<lparr>sawdot := True, dp := nd st\<rparr>))
      else if isDigit c then
        (if c = CHR ''0'' \<and> nd st = 0
         then readDigits base cs (st\<lparr>sawdigits := True, dp := dp st - 1\<rparr>)
         else readDigits base cs
                (st\<lparr>sawdigits := True, nd := nd st + 1,
                    mantissa := mantissa st * base + (of_char c - 48)\<rparr>))
      else if base = 16 \<and> isHexLetter c then
        readDigits base cs
          (st\<lparr>sawdigits := True, nd := nd st + 1,
              mantissa := mantissa st * 16 + (of_char (lower c) - 97 + 10)\<rparr>)
      else (st, c # cs))"

text \<open>The digits of the exponent; \<open>e\<close> stops growing at 10000, as in Go.\<close>

fun readExp :: "string \<Rightarrow> int \<Rightarrow> bool \<Rightarrow> int \<times> bool \<times> string" where
  "readExp [] e us = (e, us, [])"
| "readExp (c # cs) e us =
     (if c = CHR ''_'' then readExp cs e True
      else if isDigit c then readExp cs (if e < 10000 then e * 10 + (of_char c - 48) else e) us
      else (e, us, c # cs))"

fun underscoreLoop :: "bool \<Rightarrow> char \<Rightarrow> string \<Rightarrow> bool" where
  "underscoreLoop hex saw [] = (saw \<noteq> CHR ''_'')"
| "underscoreLoop hex saw (c # cs) =
     (if isDigit c \<or> (hex \<and> isHexLetter c) then underscoreLoop hex (CHR ''0'') cs
      else if c = CHR ''_'' then
        (if saw \<noteq> CHR ''0'' then False else underscoreLoop hex (CHR ''_'') cs)
      else if saw = CHR ''_'' then False
      else underscoreLoop hex (CHR ''!'') cs)"

definition underscoreOK :: "string \<Rightarrow> bool" where
  "underscoreOK s0 =
     (let s = (case s0 of
                 [] \<Rightarrow> s0
               | c # cs \<Rightarrow> if c = CHR ''-'' \<or> c = CHR ''+'' then cs else s0)
      in case s of
           c0 # c1 # rest \<Rightarrow>
             if c0 = CHR ''0'' \<and>
                (lower c1 = CHR ''b'' \<or> lower c1 = CHR ''o'' \<or> lower c1 = CHR ''x'')
             then underscoreLoop (lower c1 = CHR ''x'') (CHR ''0'') rest
             else underscoreLoop False (CHR ''^'') s
         | _ \<Rightarrow> underscoreLoop False (CHR ''^'') s)"

text \<open>
  \<open>readFloat\<close>: sign, optional \<open>0x\<close>, digits with at most one point, exponent (\<open>e\<close> in
  base 10, \<open>p\<close> and mandatory in base 16).  The result is the sign, the mantissa, the
  exponent of 10 (of 2 in base 16), the base-16 flag and the unread rest; \<open>None\<close> is
  Go's \<open>ok = false\<close>.  It is written in three parts: the base prefix, the exponent after
  its letter, and the final check of the underscores in what was read.
\<close>

definition hexPrefix :: "string \<Rightarrow> bool" where
  "hexPrefix s1 =
     (case s1 of
        c0 # c1 # c2 # rest \<Rightarrow> c0 = CHR ''0'' \<and> lower c1 = CHR ''x''
      | _ \<Rightarrow> False)"

definition readExponent :: "string \<Rightarrow> bool \<Rightarrow> (int \<times> bool \<times> string) option" where
  "readExponent xs us =
     (case xs of
        [] \<Rightarrow> None
      | y # ys \<Rightarrow>
          (let esign = (if y = CHR ''-'' then - 1 else 1);
               s3 = (if y = CHR ''+'' \<or> y = CHR ''-'' then ys else xs)
           in (case s3 of
                 [] \<Rightarrow> None
               | z # zs \<Rightarrow>
                   (if \<not> isDigit z then None
                    else (case readExp s3 0 us of
                            (e, us', s4) \<Rightarrow> Some (e * esign, us', s4))))))"

definition finishFloat ::
  "string \<Rightarrow> bool \<Rightarrow> int \<Rightarrow> int \<Rightarrow> bool \<Rightarrow> int \<Rightarrow> bool \<Rightarrow> string
    \<Rightarrow> (bool \<times> int \<times> int \<times> bool \<times> string) option" where
  "finishFloat s neg mant ndMant hex dp3 us s3 =
     (if us \<and> \<not> underscoreOK (take (length s - length s3) s) then None
      else Some (neg, mant, (if mant \<noteq> 0 then dp3 - ndMant else 0), hex, s3))"

definition readFloat :: "string \<Rightarrow> (bool \<times> int \<times> int \<times> bool \<times> string) option" where
  "readFloat s =
     (case s of
        [] \<Rightarrow> None
      | c # cs \<Rightarrow>
          (let neg = (c = CHR ''-'');
               s1 = (if c = CHR ''+'' \<or> c = CHR ''-'' then cs else s);
               hex = hexPrefix s1;
               base = (if hex then 16 else 10);
               expChar = (if hex then CHR ''p'' else CHR ''e'');
               (st, s2) = readDigits base (if hex then drop 2 s1 else s1)
                            \<lparr>mantissa = 0, nd = 0, dp = 0, sawdot = False,
                             sawdigits = False, underscores = False\<rparr>;
               dp1 = (if sawdot st then dp st else nd st);
               dp2 = (if hex then dp1 * 4 else dp1);
               ndMant = (if hex then nd st * 4 else nd st)
           in (if \<not> sawdigits st then None
               else if s2 \<noteq> [] \<and> lower (hd s2) = expChar then
                 (case readExponent (tl s2) (underscores st) of
                    None \<Rightarrow> None
                  | Some (e, us, s4) \<Rightarrow>
                      finishFloat s neg (mantissa st) ndMant hex (dp2 + e) us s4)
               else if hex then None
               else finishFloat s neg (mantissa st) ndMant hex dp2 (underscores st) s2)))"

fun commonPrefixLenIgnoreCase :: "string \<Rightarrow> string \<Rightarrow> nat" where
  "commonPrefixLenIgnoreCase (c # cs) (p # ps) =
     (if (if 65 \<le> (of_char c :: int) \<and> (of_char c :: int) \<le> 90
          then char_of ((of_char c :: int) + 32) else c) = p
      then Suc (commonPrefixLenIgnoreCase cs ps) else 0)"
| "commonPrefixLenIgnoreCase _ _ = 0"

text \<open>\<open>special\<close>: the infinities and NaN, with the number of bytes read.\<close>

definition infinityPrefix :: "bool \<Rightarrow> nat \<Rightarrow> string \<Rightarrow> (float64 \<times> nat) option" where
  "infinityPrefix neg nsign s =
     (let n0 = commonPrefixLenIgnoreCase s ''infinity'';
          n = (if 3 < n0 \<and> n0 < 8 then 3 else n0)
      in if n = 3 \<or> n = 8 then Some (if neg then NegInf else PosInf, nsign + n) else None)"

definition special :: "string \<Rightarrow> (float64 \<times> nat) option" where
  "special s =
     (case s of
        [] \<Rightarrow> None
      | c # cs \<Rightarrow>
          if c = CHR ''+'' \<or> c = CHR ''-'' then infinityPrefix (c = CHR ''-'') 1 cs
          else if c = CHR ''i'' \<or> c = CHR ''I'' then infinityPrefix False 0 s
          else if c = CHR ''n'' \<or> c = CHR ''N'' then
            (if commonPrefixLenIgnoreCase s ''nan'' = 3 then Some (NaN, 3) else None)
          else None)"

text \<open>
  \<open>strconv.ParseFloat(s, 64)\<close>: the whole of \<open>s\<close> must be a number; the result is the
  nearest float64.  \<open>Inl\<close> is a non-nil \<open>err\<close> (the program looks at nothing else of
  a failed call).
\<close>

definition ParseFloat :: "string \<Rightarrow> NumError + float64" where
  "ParseFloat s =
     (case special s of
        Some (v, n) \<Rightarrow> if n = length s then Inr v else Inl ErrSyntax
      | None \<Rightarrow>
          (case readFloat s of
             None \<Rightarrow> Inl ErrSyntax
           | Some (neg, mant, ex, hex, rest) \<Rightarrow>
               if rest \<noteq> [] then Inl ErrSyntax
               else if hex then
                 (if 0 \<le> ex then toFloat64 neg (mant * 2 ^ nat ex) 1
                  else toFloat64 neg mant (2 ^ nat (- ex)))
               else
                 (if 0 \<le> ex then toFloat64 neg (mant * 10 ^ nat ex) 1
                  else toFloat64 neg mant (10 ^ nat (- ex)))))"

section \<open>The pattern of a sensor line\<close>

text \<open>
  The program compiles one pattern,
  \<^verbatim>\<open>^([^|]+)\s*\|\s*([^|]+)\s*\|\s*(\w+)\s*\|\s*([^|]+)\s*\|\s*(.+)$\<close>,
  and calls \<open>FindStringSubmatch\<close> on each trimmed line.  The pattern is a sequence of
  items: a literal byte, a class repeated with \<open>*\<close>, or a class repeated with \<open>+\<close>,
  each either plain or inside a capturing group.  Go's matcher returns the match a
  backtracking search finds first, where \<open>*\<close> and \<open>+\<close> try the longest repetition
  first; \<open>matchFrom\<close> is that search.  The pattern is anchored at both ends, so a match
  is a match of the whole line.

  The classes: \<open>[^|]\<close> is every character but the bar, \<open>\s\<close> is
  \<open>[\t\n\f\r ]\<close>, \<open>\w\<close> is \<open>[0-9A-Za-z_]\<close>, and \<open>.\<close> is every character but
  the line feed.  The matcher of Go reads characters, not bytes; a character of several
  bytes (or a byte that is no valid UTF-8) belongs to \<open>[^|]\<close> and to \<open>.\<close> with all its
  bytes and to no other class or literal of the pattern, so reading bytes gives the same
  matches and the same captured texts.
\<close>

definition notPipe :: "char \<Rightarrow> bool" where
  "notPipe c = (c \<noteq> pipe)"

definition reSpace :: "char \<Rightarrow> bool" where
  "reSpace c = (c = CHR 0x09 \<or> c = CHR 0x0A \<or> c = CHR 0x0C \<or> c = CHR 0x0D \<or> c = CHR 0x20)"

definition reWord :: "char \<Rightarrow> bool" where
  "reWord c =
     (let n = (of_char c :: int)
      in (48 \<le> n \<and> n \<le> 57) \<or> (65 \<le> n \<and> n \<le> 90) \<or> (97 \<le> n \<and> n \<le> 122) \<or> n = 95)"

definition anyChar :: "char \<Rightarrow> bool" where
  "anyChar c = (c \<noteq> newline)"

datatype item = Lit char | Star "char \<Rightarrow> bool" | Plus "char \<Rightarrow> bool"

datatype node = Plain item | Group item

fun itemOf :: "node \<Rightarrow> item" where
  "itemOf (Plain i) = i"
| "itemOf (Group i) = i"

definition sensorRegex :: "node list" where
  "sensorRegex =
    [Group (Plus notPipe), Plain (Star reSpace), Plain (Lit pipe), Plain (Star reSpace),
     Group (Plus notPipe), Plain (Star reSpace), Plain (Lit pipe), Plain (Star reSpace),
     Group (Plus reWord), Plain (Star reSpace), Plain (Lit pipe), Plain (Star reSpace),
     Group (Plus notPipe), Plain (Star reSpace), Plain (Lit pipe), Plain (Star reSpace),
     Group (Plus anyChar)]"

text \<open>The numbers of bytes an item may take at the head of \<open>s\<close>, the preferred first.\<close>

fun itemLens :: "item \<Rightarrow> string \<Rightarrow> nat list" where
  "itemLens (Lit c) s = (case s of [] \<Rightarrow> [] | x # xs \<Rightarrow> if x = c then [1] else [])"
| "itemLens (Star p) s = rev [0 ..< Suc (length (takeWhile p s))]"
| "itemLens (Plus p) s = rev [1 ..< Suc (length (takeWhile p s))]"

fun firstSome :: "('a \<Rightarrow> 'b option) \<Rightarrow> 'a list \<Rightarrow> 'b option" where
  "firstSome f [] = None"
| "firstSome f (k # ks) = (case f k of Some r \<Rightarrow> Some r | None \<Rightarrow> firstSome f ks)"

text \<open>The search: the texts of the groups, in order, of the first match of the whole of
  \<open>s\<close>; \<open>caps\<close> are the groups closed so far.\<close>

primrec matchFrom :: "node list \<Rightarrow> string \<Rightarrow> string list \<Rightarrow> string list option" where
  "matchFrom [] = (\<lambda>s caps. if s = [] then Some caps else None)"
| "matchFrom (n # ns) =
     (\<lambda>s caps.
        firstSome
          (\<lambda>k. matchFrom ns (drop k s)
                 (case n of Plain i \<Rightarrow> caps | Group i \<Rightarrow> caps @ [take k s]))
          (itemLens (itemOf n) s))"

text \<open>\<open>FindStringSubmatch\<close>: the whole match and the texts of the groups, or nil (the
  empty list) when the line does not match.\<close>

definition FindStringSubmatch :: "node list \<Rightarrow> string \<Rightarrow> string list" where
  "FindStringSubmatch re s = (case matchFrom re s [] of None \<Rightarrow> [] | Some caps \<Rightarrow> s # caps)"

section \<open>The program\<close>

record IPMIConfig =
  Host :: string
  Username :: string
  Password :: string
  Port :: int

record SensorData =
  Name :: string
  ID :: string
  Status :: string
  Entity :: string
  Value :: float64
  Unit :: string
  Type :: string

subsection \<open>\<open>parseValue\<close>\<close>

text \<open>
  Each of the five blocks of \<open>parseValue\<close> is the same test: the keyword occurs in the
  text, the text has a first field, and the field parses.  \<open>keywordValue\<close> is one block;
  \<open>None\<close> is falling through to the next block.
\<close>

definition keywordValue :: "string \<Rightarrow> string \<Rightarrow> float64 option" where
  "keywordValue valueStr keyword =
     (if Contains valueStr keyword then
        (let parts = Fields valueStr
         in if 1 \<le> length parts then
              (case ParseFloat (parts ! 0) of Inr val \<Rightarrow> Some val | Inl err \<Rightarrow> None)
            else None)
      else None)"

definition parseValue :: "string \<Rightarrow> float64 \<times> string \<times> string" where
  "parseValue valueStr0 =
     (let valueStr = TrimSpace valueStr0 in
      (case keywordValue valueStr ''Volts'' of
         Some val \<Rightarrow> (val, ''volts'', ''voltage'')
       | None \<Rightarrow>
      (case keywordValue valueStr ''degrees C'' of
         Some val \<Rightarrow> (val, ''celsius'', ''temperature'')
       | None \<Rightarrow>
      (case keywordValue valueStr ''RPM'' of
         Some val \<Rightarrow> (val, ''rpm'', ''fan'')
       | None \<Rightarrow>
      (case keywordValue valueStr ''Watts'' of
         Some val \<Rightarrow> (val, ''watts'', ''power'')
       | None \<Rightarrow>
      (case keywordValue valueStr ''Amps'' of
         Some val \<Rightarrow> (val, ''amperes'', ''current'')
       | None \<Rightarrow> (Fin 0, [], [])))))))"

subsection \<open>\<open>parseSensorData\<close>\<close>

text \<open>The loop over the lines; \<open>sensors\<close> is the slice built so far, and each
  \<open>continue\<close> of the source goes on with the slice unchanged.\<close>

fun parseLines :: "string list \<Rightarrow> SensorData list \<Rightarrow> SensorData list" where
  "parseLines [] sensors = sensors"
| "parseLines (line0 # lines) sensors =
     (let line = TrimSpace line0 in
      if line = [] then parseLines lines sensors
      else
        (let matches = FindStringSubmatch sensorRegex line in
         if length matches \<noteq> 6 then parseLines lines sensors
         else
           (let name = TrimSpace (matches ! 1);
                id = TrimSpace (matches ! 2);
                status = TrimSpace (matches ! 3);
                entity = TrimSpace (matches ! 4);
                valueStr = TrimSpace (matches ! 5)
            in if status \<noteq> ''ok'' then parseLines lines sensors
               else if Contains valueStr ''No Reading'' then parseLines lines sensors
               else
                 (case parseValue valueStr of
                    (val, unit, sensorType) \<Rightarrow>
                      if isZero val \<and> unit = [] then parseLines lines sensors
                      else parseLines lines
                             (sensors @
                              [\<lparr>Name = name, ID = id, Status = status, Entity = entity,
                                Value = val, Unit = unit, Type = sensorType\<rparr>])))))"

definition parseSensorData :: "string \<Rightarrow> SensorData list" where
  "parseSensorData sdrData = parseLines (Split sdrData newline) []"

subsection \<open>The gauges and \<open>updateMetrics\<close>\<close>

text \<open>
  The five gauge vectors are global variables of the program; the registry is the record
  of their contents, passed in and returned.  A gauge vector holds one float64 for each
  combination of the label values \<open>(sensor_name, sensor_id, host)\<close>.  The metrics
  library is not part of the repository; \<open>WithLabelValues(name, id, host).Set(v)\<close> is
  written after its behaviour: \<open>WithLabelValues\<close> checks the label values in order and
  panics on the first that is not valid UTF-8; otherwise \<open>Set\<close> stores \<open>v\<close> under the
  combination, creating it when it is new.  Nothing in the program recovers from a panic:
  it ends the process.
\<close>

text \<open>
  \<open>utf8.ValidString\<close>: the bytes are a sequence of well-formed UTF-8 encodings.  After
  the first byte of an encoding, \<open>tailOK\<close> checks the ranges of the bytes that follow;
  \<open>runeWidth\<close> is the number of bytes of the encoding at the head, 0 when there is none.
\<close>

definition inRange :: "int \<Rightarrow> int \<Rightarrow> char \<Rightarrow> bool" where
  "inRange lo hi c = (lo \<le> of_char c \<and> of_char c \<le> hi)"

fun tailOK :: "(int \<times> int) list \<Rightarrow> string \<Rightarrow> bool" where
  "tailOK [] s = True"
| "tailOK ((lo, hi) # ranges) [] = False"
| "tailOK ((lo, hi) # ranges) (c # cs) = (inRange lo hi c \<and> tailOK ranges cs)"

definition runeWidth :: "string \<Rightarrow> nat" where
  "runeWidth s =
     (case s of
        [] \<Rightarrow> 0
      | c # cs \<Rightarrow>
          (if inRange 0x00 0x7F c then 1
           else if inRange 0xC2 0xDF c then (if tailOK [(0x80, 0xBF)] cs then 2 else 0)
           else if inRange 0xE0 0xE0 c then
             (if tailOK [(0xA0, 0xBF), (0x80, 0xBF)] cs then 3 else 0)
           else if inRange 0xE1 0xEC c then
             (if tailOK [(0x80, 0xBF), (0x80, 0xBF)] cs then 3 else 0)
           else if inRange 0xED 0xED c then
             (if tailOK [(0x80, 0x9F), (0x80, 0xBF)] cs then 3 else 0)
           else if inRange 0xEE 0xEF c then
             (if tailOK [(0x80, 0xBF), (0x80, 0xBF)] cs then 3 else 0)
           else if inRange 0xF0 0xF0 c then
             (if tailOK [(0x90, 0xBF), (0x80, 0xBF), (0x80, 0xBF)] cs then 4 else 0)
           else if inRange 0xF1 0xF3 c then
             (if tailOK [(0x80, 0xBF), (0x80, 0xBF), (0x80, 0xBF)] cs then 4 else 0)
           else if inRange 0xF4 0xF4 c then
             (if tailOK [(0x80, 0x8F), (0x80, 0xBF), (0x80, 0xBF)] cs then 4 else 0)
           else 0))"

function ValidString :: "string \<Rightarrow> bool" where
  "ValidString s =
     (if s = [] then True
      else if runeWidth s = 0 then False
      else ValidString (drop (runeWidth s) s))"
  by pat_completeness auto
termination
  by (relation "measure length") auto

declare ValidString.simps [simp del]

type_synonym labels = "string \<times> string \<times> string"

type_synonym GaugeVec = "labels \<rightharpoonup> float64"

record registry =
  voltageGauge :: GaugeVec
  temperatureGauge :: GaugeVec
  fanGauge :: GaugeVec
  powerGauge :: GaugeVec
  currentGauge :: GaugeVec

text \<open>The panic of \<open>WithLabelValues\<close>, with the label value that it refuses.\<close>

datatype panic = InvalidLabelValue string

text \<open>\<open>vec.WithLabelValues(sensor_name, sensor_id, host).Set(v)\<close>: \<open>Inl\<close> is the panic,
  \<open>Inr\<close> the gauge vector after the call.\<close>

definition SetGauge ::
  "GaugeVec \<Rightarrow> string \<Rightarrow> string \<Rightarrow> string \<Rightarrow> float64 \<Rightarrow> panic + GaugeVec" where
  "SetGauge g sensor_name sensor_id host v =
     (if \<not> ValidString sensor_name then Inl (InvalidLabelValue sensor_name)
      else if \<not> ValidString sensor_id then Inl (InvalidLabelValue sensor_id)
      else if \<not> ValidString host then Inl (InvalidLabelValue host)
      else Inr (g((sensor_name, sensor_id, host) \<mapsto> v)))"

text \<open>The body of the loop of \<open>updateMetrics\<close>: the \<open>switch\<close> on the type of a sensor.\<close>

definition updateSensor :: "SensorData \<Rightarrow> string \<Rightarrow> registry \<Rightarrow> panic + registry" where
  "updateSensor sensor host reg =
     (if Type sensor = ''voltage'' then
        (case SetGauge (voltageGauge reg) (Name sensor) (ID sensor) host (Value sensor) of
           Inl p \<Rightarrow> Inl p
         | Inr g \<Rightarrow> Inr (reg\<lparr>voltageGauge := g\<rparr>))
      else if Type sensor = ''temperature'' then
        (case SetGauge (temperatureGauge reg) (Name sensor) (ID sensor) host (Value sensor) of
           Inl p \<Rightarrow> Inl p
         | Inr g \<Rightarrow> Inr (reg\<lparr>temperatureGauge := g\<rparr>))
      else if Type sensor = ''fan'' then
        (case SetGauge (fanGauge reg) (Name sensor) (ID sensor) host (Value sensor) of
           Inl p \<Rightarrow> Inl p
         | Inr g \<Rightarrow> Inr (reg\<lparr>fanGauge := g\<rparr>))
      else if Type sensor = ''power'' then
        (case SetGauge (powerGauge reg) (Name sensor) (ID sensor) host (Value sensor) of
           Inl p \<Rightarrow> Inl p
         | Inr g \<Rightarrow> Inr (reg\<lparr>powerGauge := g\<rparr>))
      else if Type sensor = ''current'' then
        (case SetGauge (currentGauge reg) (Name sensor) (ID sensor) host (Value sensor) of
           Inl p \<Rightarrow> Inl p
         | Inr g \<Rightarrow> Inr (reg\<lparr>currentGauge := g\<rparr>))
      else Inr reg)"

text \<open>The loop of \<open>updateMetrics\<close> stops at the first panic: the sensors after it are
  not written.\<close>

fun updateMetrics :: "SensorData list \<Rightarrow> string \<Rightarrow> registry \<Rightarrow> panic + registry" where
  "updateMetrics [] host reg = Inr reg"
| "updateMetrics (sensor # sensors) host reg =
     (case updateSensor sensor host reg of
        Inl p \<Rightarrow> Inl p
      | Inr reg' \<Rightarrow> updateMetrics sensors host reg')"

subsection \<open>\<open>collectMetrics\<close>\<close>

text \<open>
  \<open>executeIPMICommand\<close> runs an external program; \<open>result\<close> is what it returned, \<open>Inl\<close> an
  error and \<open>Inr\<close> the report text.  On an error \<open>collectMetrics\<close> logs and returns.
  The lines it writes to the log are not part of the model.  The result is the registry
  after the call, or the panic of \<open>updateMetrics\<close>.
\<close>

definition collectMetrics ::
  "IPMIConfig \<Rightarrow> string + string \<Rightarrow> registry \<Rightarrow> panic + registry" where
  "collectMetrics config result reg =
     (case result of
        Inl err \<Rightarrow> Inr reg
      | Inr output \<Rightarrow> updateMetrics (parseSensorData output) (Host config) reg)"

subsection \<open>\<open>startMetricsCollection\<close>\<close>

text \<open>
  \<open>startMetricsCollection\<close> creates the ticker, starts a goroutine that loops over
  \<open>collectMetrics(config); <-ticker.C\<close>, and then calls \<open>collectMetrics(config)\<close> itself.
  The two flows of control are interleaved: a state holds where each of them stands,
  whether a tick waits in the channel of the ticker (it buffers one tick and drops a tick
  that finds it full), the registry, and two counters, of the calls of \<open>collectMetrics\<close>
  and of the ticks the loop has received.  An event is one step of the caller, one step of
  the goroutine (each with the result of the external command, read when the step is a
  call of \<open>collectMetrics\<close>), or the timer firing.  A call of \<open>collectMetrics\<close> is one step.
  The state \<open>afterNewTicker\<close> is the one after line 247 of the source.
\<close>

datatype callerPc = AtGoStatement | AtCollect | Returned

datatype loopPc = NotStarted | LoopCollect | LoopReceive

datatype event = CallerStep "string + string" | LoopStep "string + string" | TimerFires

record sched =
  caller :: callerPc
  loop :: loopPc
  tickWaiting :: bool
  reg :: registry
  collectCalls :: nat
  ticksReceived :: nat

definition afterNewTicker :: "registry \<Rightarrow> sched" where
  "afterNewTicker r =
     \<lparr>caller = AtGoStatement, loop = NotStarted, tickWaiting = False, reg = r,
      collectCalls = 0, ticksReceived = 0\<rparr>"

text \<open>A call of \<open>collectMetrics\<close>; \<open>None\<close> when it panics: the panic ends the process and
  no state follows.\<close>

definition callCollect :: "IPMIConfig \<Rightarrow> string + string \<Rightarrow> sched \<Rightarrow> sched option" where
  "callCollect config result st =
     (case collectMetrics config result (reg st) of
        Inl p \<Rightarrow> None
      | Inr r \<Rightarrow> Some (st\<lparr>reg := r, collectCalls := Suc (collectCalls st)\<rparr>))"

text \<open>One step; \<open>None\<close> when the flow of the event cannot move (it has returned, has not
  started, or waits for a tick that is not there) or its call of \<open>collectMetrics\<close> panics.\<close>

fun step :: "IPMIConfig \<Rightarrow> event \<Rightarrow> sched \<Rightarrow> sched option" where
  "step config (CallerStep result) st =
     (case caller st of
        AtGoStatement \<Rightarrow> Some (st\<lparr>caller := AtCollect, loop := LoopCollect\<rparr>)
      | AtCollect \<Rightarrow>
          map_option (\<lambda>st'. st'\<lparr>caller := Returned\<rparr>) (callCollect config result st)
      | Returned \<Rightarrow> None)"
| "step config (LoopStep result) st =
     (case loop st of
        NotStarted \<Rightarrow> None
      | LoopCollect \<Rightarrow>
          map_option (\<lambda>st'. st'\<lparr>loop := LoopReceive\<rparr>) (callCollect config result st)
      | LoopReceive \<Rightarrow>
          if tickWaiting st
          then Some (st\<lparr>tickWaiting := False, ticksReceived := Suc (ticksReceived st),
                        loop := LoopCollect\<rparr>)
          else None)"
| "step config TimerFires st = Some (st\<lparr>tickWaiting := True\<rparr>)"

fun run :: "IPMIConfig \<Rightarrow> event list \<Rightarrow> sched \<Rightarrow> sched option" where
  "run config [] st = Some st"
| "run config (e # es) st =
     (case step config e st of None \<Rightarrow> None | Some st' \<Rightarrow> run config es st')"

section \<open>Notions used in the statements\<close>

text \<open>The readings that one line of the report contributes: the loop run on that line alone.\<close>

definition lineReadings :: "string \<Rightarrow> SensorData list" where
  "lineReadings line0 = parseLines [line0] []"

text \<open>The units and types that \<open>parseValue\<close> returns with a parsed value, and the pair
  that belongs to the first keyword, in the order of the source, that occurs in a text.\<close>

definition unitPairs :: "(string \<times> string) list" where
  "unitPairs = [(''volts'', ''voltage''), (''celsius'', ''temperature''), (''rpm'', ''fan''),
     (''watts'', ''power''), (''amperes'', ''current'')]"

definition unitOf :: "string \<Rightarrow> (string \<times> string) option" where
  "unitOf valueStr =
     (if Contains valueStr ''Volts'' then Some (''volts'', ''voltage'')
      else if Contains valueStr ''degrees C'' then Some (''celsius'', ''temperature'')
      else if Contains valueStr ''RPM'' then Some (''rpm'', ''fan'')
      else if Contains valueStr ''Watts'' then Some (''watts'', ''power'')
      else if Contains valueStr ''Amps'' then Some (''amperes'', ''current'')
      else None)"

text \<open>
  The panic, if any, that the label values of one call of \<open>WithLabelValues\<close> cause, that
  a sensor causes (one of unknown type is not written and causes none), and that a list
  of sensors causes: the panic of its first sensor that causes one.
\<close>

definition labelPanic :: "string \<Rightarrow> string \<Rightarrow> string \<Rightarrow> panic option" where
  "labelPanic sensor_name sensor_id host =
     (if \<not> ValidString sensor_name then Some (InvalidLabelValue sensor_name)
      else if \<not> ValidString sensor_id then Some (InvalidLabelValue sensor_id)
      else if \<not> ValidString host then Some (InvalidLabelValue host)
      else None)"

definition knownType :: "string \<Rightarrow> bool" where
  "knownType ty = (ty \<in> set [''voltage'', ''temperature'', ''fan'', ''power'', ''current''])"

definition sensorPanic :: "SensorData \<Rightarrow> string \<Rightarrow> panic option" where
  "sensorPanic sensor host =
     (if knownType (Type sensor) then labelPanic (Name sensor) (ID sensor) host else None)"

fun panicOf :: "SensorData list \<Rightarrow> string \<Rightarrow> panic option" where
  "panicOf [] host = None"
| "panicOf (sensor # sensors) host =
     (case sensorPanic sensor host of Some p \<Rightarrow> Some p | None \<Rightarrow> panicOf sensors host)"

text \<open>The values that \<open>updateMetrics\<close> writes to the gauge of the type \<open>ty\<close>, with
  their labels, in the order of the sensors, when no call panics.\<close>

definition gaugeWrites :: "string \<Rightarrow> string \<Rightarrow> SensorData list \<Rightarrow> (labels \<times> float64) list" where
  "gaugeWrites ty host sensors =
     map (\<lambda>s. ((Name s, ID s, host), Value s)) (filter (\<lambda>s. Type s = ty) sensors)"

text \<open>
  A text \<open>fits\<close> an item of the pattern when the item can match exactly that text.  A
  field is a \<open>wordField\<close> when it is one word of letters, digits and underscores with
  optional white space (of the pattern's \<open>\s\<close>) on both sides.  A line has the
  \<open>fiveFieldShape\<close> when the bars cut it into at least five fields, the first, the
  second and the fourth are not empty, the third is a word field, and something follows
  the fourth bar.
\<close>

fun fits :: "item \<Rightarrow> string \<Rightarrow> bool" where
  "fits (Lit c) p = (p = [c])"
| "fits (Star q) p = list_all q p"
| "fits (Plus q) p = (p \<noteq> [] \<and> list_all q p)"

definition wordField :: "string \<Rightarrow> bool" where
  "wordField f =
     (let w = dropWhile reSpace f
      in takeWhile reWord w \<noteq> [] \<and> list_all reSpace (dropWhile reWord w))"

definition fiveFieldShape :: "string \<Rightarrow> bool" where
  "fiveFieldShape l =
     (let fs = Split l pipe
      in 5 \<le> length fs \<and> fs ! 0 \<noteq> [] \<and> fs ! 1 \<noteq> [] \<and> wordField (fs ! 2) \<and> fs ! 3 \<noteq> []
         \<and> (5 < length fs \<or> fs ! 4 \<noteq> []))"

text \<open>The texts of the groups, given the texts of all the items of a pattern.\<close>

fun groupTexts :: "node list \<Rightarrow> string list \<Rightarrow> string list" where
  "groupTexts (Group i # ns) (p # ps) = p # groupTexts ns ps"
| "groupTexts (Plain i # ns) (p # ps) = groupTexts ns ps"
| "groupTexts _ _ = []"

text \<open>The shape in the words of the specification: the bars cut the line into exactly
  five fields.\<close>

definition spec_exactlyFiveFields :: "string \<Rightarrow> bool" where
  "spec_exactlyFiveFields l = (length (Split l pipe) = 5)"

section \<open>Properties of the string helpers\<close>

lemma spaceWidth_zero_iff: "spaceWidth s = 0 \<longleftrightarrow> find (\<lambda>q. prefix q s) spaceSeqs = None"
  by (auto simp: spaceWidth_def spaceSeqs_def split: option.splits if_splits)

lemma spaceWidthEnd_zero_iff: "spaceWidthEnd s = 0 \<longleftrightarrow> find (\<lambda>q. suffix q s) spaceSeqs = None"
  by (auto simp: spaceWidthEnd_def spaceSeqs_def split: option.splits if_splits)

lemma spaceWidth_TrimLeftSpace: "spaceWidth (TrimLeftSpace s) = 0"
  by (induction s rule: TrimLeftSpace.induct) (subst TrimLeftSpace.simps, simp)

lemma spaceWidthEnd_TrimRightSpace: "spaceWidthEnd (TrimRightSpace s) = 0"
  by (induction s rule: TrimRightSpace.induct) (subst TrimRightSpace.simps, simp)

lemma prefix_TrimRightSpace: "prefix (TrimRightSpace s) s"
proof (induction s rule: TrimRightSpace.induct)
  case (1 s)
  show ?case
  proof (cases "spaceWidthEnd s = 0")
    case True
    then show ?thesis by (subst TrimRightSpace.simps) simp
  next
    case False
    from 1 [OF False] have "prefix (TrimRightSpace (take (length s - spaceWidthEnd s) s)) s"
      using prefix_order.order_trans take_is_prefix by blast
    with False show ?thesis by (subst TrimRightSpace.simps) simp
  qed
qed

lemma spaceWidth_prefix: "prefix u w \<Longrightarrow> spaceWidth w = 0 \<Longrightarrow> spaceWidth u = 0"
  unfolding spaceWidth_zero_iff find_None_iff
  using prefix_order.order_trans by blast

lemma TrimLeftSpace_id: "spaceWidth s = 0 \<Longrightarrow> TrimLeftSpace s = s"
  by (subst TrimLeftSpace.simps) simp

lemma TrimRightSpace_id: "spaceWidthEnd s = 0 \<Longrightarrow> TrimRightSpace s = s"
  by (subst TrimRightSpace.simps) simp

lemma TrimSpace_idem: "TrimSpace (TrimSpace s) = TrimSpace s"
proof -
  have "spaceWidth (TrimSpace s) = 0"
    unfolding TrimSpace_def
    by (rule spaceWidth_prefix [OF prefix_TrimRightSpace spaceWidth_TrimLeftSpace])
  moreover have "spaceWidthEnd (TrimSpace s) = 0"
    unfolding TrimSpace_def by (rule spaceWidthEnd_TrimRightSpace)
  ultimately show ?thesis
    by (simp add: TrimSpace_def [of "TrimSpace s"] TrimLeftSpace_id TrimRightSpace_id)
qed

text \<open>White space of the pattern (\<open>\s\<close>) around a text does not change what
  \<open>TrimSpace\<close> returns for it.\<close>

lemma spaceSeqs_ends:
  "list_all (\<lambda>q. q \<noteq> [] \<and> (length q = 1 \<or> (\<not> reSpace (hd q) \<and> \<not> reSpace (last q)))) spaceSeqs"
  by code_simp

lemma spaceSeqs_reSpace:
  assumes "q \<in> set spaceSeqs"
  shows "q \<noteq> []" "reSpace (hd q) \<Longrightarrow> q = [hd q]" "reSpace (last q) \<Longrightarrow> q = [last q]"
proof -
  from assms spaceSeqs_ends
  have q: "q \<noteq> [] \<and> (length q = 1 \<or> (\<not> reSpace (hd q) \<and> \<not> reSpace (last q)))"
    by (simp add: list_all_iff)
  then show "q \<noteq> []" by simp
  show "q = [hd q]" if "reSpace (hd q)"
    using q that by (cases q) auto
  show "q = [last q]" if "reSpace (last q)"
    using q that by (cases q) auto
qed

lemma find_reSpace: "reSpace c \<Longrightarrow> find (\<lambda>q. q = [c]) spaceSeqs = Some [c]"
  by (auto simp: reSpace_def spaceSeqs_def)

lemma spaceWidth_reSpace_Cons:
  assumes "reSpace c"
  shows "spaceWidth (c # s) = 1"
proof -
  have "prefix q (c # s) = (q = [c])" if "q \<in> set spaceSeqs" for q
  proof
    assume p: "prefix q (c # s)"
    with spaceSeqs_reSpace(1) [OF that] have "hd q = c" by (cases q) auto
    with spaceSeqs_reSpace(2) [OF that] assms show "q = [c]" by simp
  qed simp
  then have "find (\<lambda>q. prefix q (c # s)) spaceSeqs = find (\<lambda>q. q = [c]) spaceSeqs"
    by (intro find_cong) simp_all
  then show ?thesis by (simp add: spaceWidth_def find_reSpace [OF assms])
qed

lemma spaceWidthEnd_reSpace_snoc:
  assumes "reSpace c"
  shows "spaceWidthEnd (s @ [c]) = 1"
proof -
  have "suffix q (s @ [c]) = (q = [c])" if "q \<in> set spaceSeqs" for q
  proof
    assume p: "suffix q (s @ [c])"
    then obtain zs where "s @ [c] = zs @ q" by (auto simp: suffix_def)
    then have "last (s @ [c]) = last (zs @ q)" by simp
    with spaceSeqs_reSpace(1) [OF that] have "last q = c" by simp
    with spaceSeqs_reSpace(3) [OF that] assms show "q = [c]" by simp
  qed simp
  then have "find (\<lambda>q. suffix q (s @ [c])) spaceSeqs = find (\<lambda>q. q = [c]) spaceSeqs"
    by (intro find_cong) simp_all
  then show ?thesis by (simp add: spaceWidthEnd_def find_reSpace [OF assms])
qed

lemma TrimLeftSpace_reSpace: "list_all reSpace a \<Longrightarrow> TrimLeftSpace (a @ x) = TrimLeftSpace x"
proof (induction a)
  case Nil
  then show ?case by simp
next
  case (Cons c a)
  then have "spaceWidth ((c # a) @ x) = 1" by (simp add: spaceWidth_reSpace_Cons)
  then have "TrimLeftSpace ((c # a) @ x) = TrimLeftSpace (a @ x)"
    by (subst TrimLeftSpace.simps) simp
  with Cons show ?case by simp
qed

lemma TrimRightSpace_reSpace: "list_all reSpace b \<Longrightarrow> TrimRightSpace (x @ b) = TrimRightSpace x"
proof (induction b rule: rev_induct)
  case Nil
  then show ?case by simp
next
  case (snoc c b)
  then have c: "reSpace c" and b: "list_all reSpace b" by simp_all
  have "TrimRightSpace ((x @ b) @ [c]) = TrimRightSpace (x @ b)"
    using spaceWidthEnd_reSpace_snoc [OF c, of "x @ b"]
    by (subst TrimRightSpace.simps) (simp del: append_assoc)
  with snoc.IH [OF b] show ?case by (simp del: append_assoc add: append_assoc [symmetric])
qed

lemma spaceWidth_snoc:
  assumes "reSpace c" "y \<noteq> []"
  shows "spaceWidth (y @ [c]) = spaceWidth y"
proof -
  have "prefix q (y @ [c]) = prefix q y" if "q \<in> set spaceSeqs" for q
  proof -
    have "q \<noteq> y @ [c]"
    proof
      assume "q = y @ [c]"
      with assms(2) have "q \<noteq> [last q]" "last q = c" by (cases y; simp)+
      with spaceSeqs_reSpace(3) [OF that] assms(1) show False by simp
    qed
    then show ?thesis by simp
  qed
  then have "find (\<lambda>q. prefix q (y @ [c])) spaceSeqs = find (\<lambda>q. prefix q y) spaceSeqs"
    by (intro find_cong) simp_all
  then show ?thesis by (simp add: spaceWidth_def)
qed

lemma TrimLeftSpace_snoc:
  "reSpace c \<Longrightarrow>
   TrimLeftSpace (y @ [c]) = (if TrimLeftSpace y = [] then [] else TrimLeftSpace y @ [c])"
proof (induction y rule: TrimLeftSpace.induct)
  case (1 y)
  show ?case
  proof (cases "y = []")
    case True
    have "TrimLeftSpace [c] = TrimLeftSpace []"
      using spaceWidth_reSpace_Cons [OF 1(2), of "[]"] by (subst TrimLeftSpace.simps) simp
    moreover have "TrimLeftSpace [] = []"
      using spaceWidth_le [of "[]"] by (subst TrimLeftSpace.simps) simp
    ultimately show ?thesis using True by simp
  next
    case False
    note w = spaceWidth_snoc [OF 1(2) False]
    show ?thesis
    proof (cases "spaceWidth y = 0")
      case True
      with w False show ?thesis by (simp add: TrimLeftSpace_id)
    next
      case nz: False
      have d: "drop (spaceWidth y) (y @ [c]) = drop (spaceWidth y) y @ [c]"
        using spaceWidth_le [of y] by simp
      have "TrimLeftSpace (y @ [c]) = TrimLeftSpace (drop (spaceWidth y) y @ [c])"
        using nz w d by (subst TrimLeftSpace.simps) simp
      moreover have "TrimLeftSpace y = TrimLeftSpace (drop (spaceWidth y) y)"
        using nz by (subst TrimLeftSpace.simps) simp
      ultimately show ?thesis using 1(1) [OF nz 1(2)] by simp
    qed
  qed
qed

lemma TrimRightSpace_Nil: "TrimRightSpace [] = []"
  using spaceWidthEnd_le [of "[]"] by (subst TrimRightSpace.simps) simp

lemma TrimSpace_reSpace:
  assumes "list_all reSpace a" "list_all reSpace b"
  shows "TrimSpace (a @ x @ b) = TrimSpace x"
proof -
  have "TrimRightSpace (TrimLeftSpace (x @ b)) = TrimRightSpace (TrimLeftSpace x)"
    using assms(2)
  proof (induction b rule: rev_induct)
    case Nil
    then show ?case by simp
  next
    case (snoc c b)
    then have c: "reSpace c" and b: "list_all reSpace b" by simp_all
    have "TrimRightSpace (TrimLeftSpace ((x @ b) @ [c])) = TrimRightSpace (TrimLeftSpace (x @ b))"
      using TrimRightSpace_reSpace [of "[c]" "TrimLeftSpace (x @ b)"] c
      by (simp add: TrimLeftSpace_snoc [OF c] TrimRightSpace_Nil del: append_assoc)
    with snoc.IH [OF b] show ?case by (simp del: append_assoc add: append_assoc [symmetric])
  qed
  then show ?thesis
    by (simp add: TrimSpace_def TrimLeftSpace_reSpace [OF assms(1)])
qed

lemma set_TrimLeftSpace: "set (TrimLeftSpace s) \<subseteq> set s"
proof (induction s rule: TrimLeftSpace.induct)
  case (1 s)
  show ?case
  proof (cases "spaceWidth s = 0")
    case True
    then show ?thesis by (simp add: TrimLeftSpace_id)
  next
    case False
    have "TrimLeftSpace s = TrimLeftSpace (drop (spaceWidth s) s)"
      using False by (subst TrimLeftSpace.simps) simp
    with 1 [OF False] show ?thesis
      using set_drop_subset [of "spaceWidth s" s] by auto
  qed
qed

lemma set_TrimSpace: "set (TrimSpace s) \<subseteq> set s"
  using set_mono_prefix [OF prefix_TrimRightSpace [of "TrimLeftSpace s"]] set_TrimLeftSpace [of s]
  by (auto simp: TrimSpace_def)

lemma append_sep_eq:
  "u @ sep # v = u' @ sep # v' \<Longrightarrow> sep \<notin> set u \<Longrightarrow> sep \<notin> set u' \<Longrightarrow> u = u' \<and> v = v'"
proof (induction u arbitrary: u')
  case Nil
  then show ?case by (cases u') auto
next
  case (Cons c u)
  then show ?case by (cases u') auto
qed

section \<open>Properties of the pattern\<close>

lemma firstSome_SomeD: "firstSome f ks = Some r \<Longrightarrow> \<exists>k\<in>set ks. f k = Some r"
  by (induction ks) (auto split: option.splits)

lemma take_takeWhile: "k \<le> length (takeWhile q s) \<Longrightarrow> list_all q (take k s)"
proof -
  assume k: "k \<le> length (takeWhile q s)"
  have "take k s = take k (takeWhile q s @ dropWhile q s)" by simp
  also have "\<dots> = take k (takeWhile q s)" using k by (simp del: takeWhile_dropWhile_id)
  finally have "set (take k s) \<subseteq> set (takeWhile q s)" by (simp add: set_take_subset)
  then show ?thesis by (auto simp: list_all_iff dest: set_takeWhileD)
qed

lemma itemLens_fits: "k \<in> set (itemLens i s) \<Longrightarrow> fits i (take k s)"
proof (cases i)
  case (Lit c)
  assume "k \<in> set (itemLens i s)"
  with Lit show ?thesis by (cases s) (auto split: if_splits)
next
  case (Star q)
  assume "k \<in> set (itemLens i s)"
  with Star show ?thesis by (auto intro: take_takeWhile)
next
  case (Plus q)
  assume "k \<in> set (itemLens i s)"
  with Plus have k: "1 \<le> k" "k \<le> length (takeWhile q s)" by auto
  then have "s \<noteq> []" by auto
  with k Plus show ?thesis by (auto intro: take_takeWhile)
qed

lemma matchFrom_sound_groups:
  "matchFrom ns s caps = Some res \<Longrightarrow>
   \<exists>ps. s = concat ps \<and> list_all2 fits (map itemOf ns) ps \<and> res = caps @ groupTexts ns ps"
proof (induction ns arbitrary: s caps)
  case Nil
  then show ?case by (auto split: if_splits)
next
  case (Cons n ns)
  let ?caps = "\<lambda>k. case n of Plain i \<Rightarrow> caps | Group i \<Rightarrow> caps @ [take k s]"
  from Cons.prems obtain k where k: "k \<in> set (itemLens (itemOf n) s)"
    and m: "matchFrom ns (drop k s) (?caps k) = Some res"
    by (auto dest!: firstSome_SomeD)
  from Cons.IH [OF m] obtain ps where ps: "drop k s = concat ps"
    "list_all2 fits (map itemOf ns) ps" "res = ?caps k @ groupTexts ns ps"
    by blast
  have "s = concat (take k s # ps)" using ps(1) by (simp flip: ps(1))
  moreover have "list_all2 fits (map itemOf (n # ns)) (take k s # ps)"
    using ps(2) itemLens_fits [OF k] by simp
  moreover have "res = caps @ groupTexts (n # ns) (take k s # ps)"
    using ps(3) by (cases n) simp_all
  ultimately show ?case by blast
qed

lemma Split_append_sep: "sep \<notin> set u \<Longrightarrow> Split (u @ sep # v) sep = u # Split v sep"
  by (induction u) auto

lemma Split_not_Nil: "Split t sep \<noteq> []"
  by (induction t) (auto split: list.splits)

lemma Split_no_sep: "sep \<notin> set t \<Longrightarrow> Split t sep = [t]"
  by (induction t) auto

lemma Split_single: "Split t sep = [x] \<Longrightarrow> x = t"
  by (induction t arbitrary: x) (auto simp: Split_not_Nil split: if_splits list.splits)

lemma reSpace_not_pipe: "reSpace c \<Longrightarrow> c \<noteq> pipe"
  by (auto simp: reSpace_def pipe_def)

lemma reWord_not_pipe: "reWord c \<Longrightarrow> c \<noteq> pipe"
  by (auto simp: reWord_def pipe_def Let_def)

lemma reWord_not_reSpace: "reWord c \<Longrightarrow> \<not> reSpace c"
  by (auto simp: reWord_def reSpace_def Let_def)

lemma wordField_pieces:
  assumes "list_all reSpace a" "w \<noteq> []" "list_all reWord w" "list_all reSpace b"
  shows "wordField (a @ w @ b)"
proof -
  from assms(2) obtain c cs where w: "w = c # cs" by (cases w) auto
  with assms(3) have c: "reWord c" by simp
  have d: "dropWhile reSpace (a @ w @ b) = w @ b"
    using assms(1) c w by (simp add: list_all_iff reWord_not_reSpace)
  have tb: "takeWhile reWord b = []"
    using assms(4) by (cases b) (auto dest: reWord_not_reSpace)
  have t: "takeWhile reWord (w @ b) = w"
    using assms(3) tb by (simp add: list_all_iff)
  have "dropWhile reWord b = b"
    using assms(4) by (cases b) (auto dest: reWord_not_reSpace)
  then have d2: "dropWhile reWord (w @ b) = b"
    using assms(3) by (simp add: list_all_iff)
  show ?thesis
    unfolding wordField_def Let_def d t d2 using assms(2,4) by simp
qed


lemma notPipe_set: "list_all notPipe p \<Longrightarrow> pipe \<notin> set p"
  by (auto simp: list_all_iff notPipe_def)

lemma reSpace_set: "list_all reSpace p \<Longrightarrow> pipe \<notin> set p"
  by (auto simp: list_all_iff dest: reSpace_not_pipe)

lemma reWord_set: "list_all reWord p \<Longrightarrow> pipe \<notin> set p"
  by (auto simp: list_all_iff dest: reWord_not_pipe)

lemma sensorRegex_pieces:
  assumes "list_all2 fits (map itemOf sensorRegex) ps"
  obtains p1 p2 p4 p5 p6 p8 p9 p10 p12 p13 p14 p16 p17 where
    "ps = [p1, p2, [pipe], p4, p5, p6, [pipe], p8, p9, p10, [pipe], p12, p13, p14, [pipe], p16, p17]"
    "p1 \<noteq> []" "list_all notPipe p1" "list_all reSpace p2"
    "list_all reSpace p4" "p5 \<noteq> []" "list_all notPipe p5" "list_all reSpace p6"
    "list_all reSpace p8" "p9 \<noteq> []" "list_all reWord p9" "list_all reSpace p10"
    "list_all reSpace p12" "p13 \<noteq> []" "list_all notPipe p13" "list_all reSpace p14"
    "list_all reSpace p16" "p17 \<noteq> []" "list_all anyChar p17"
  using assms by (auto simp: sensorRegex_def list_all2_Cons1)

lemma sensorRegex_groups:
  assumes "matchFrom sensorRegex l caps = Some res"
  obtains g1 b1 a2 g2 b2 a3 g3 b3 a4 g4 b4 a5 g5 where
    "l = (g1 @ b1) @ pipe # (a2 @ g2 @ b2) @ pipe # (a3 @ g3 @ b3) @ pipe # (a4 @ g4 @ b4)
           @ pipe # (a5 @ g5)"
    "res = caps @ [g1, g2, g3, g4, g5]"
    "g1 \<noteq> []" "list_all notPipe g1" "list_all reSpace b1"
    "list_all reSpace a2" "g2 \<noteq> []" "list_all notPipe g2" "list_all reSpace b2"
    "list_all reSpace a3" "g3 \<noteq> []" "list_all reWord g3" "list_all reSpace b3"
    "list_all reSpace a4" "g4 \<noteq> []" "list_all notPipe g4" "list_all reSpace b4"
    "list_all reSpace a5" "g5 \<noteq> []" "list_all anyChar g5"
proof -
  from matchFrom_sound_groups [OF assms] obtain ps where
    l: "l = concat ps" and ps: "list_all2 fits (map itemOf sensorRegex) ps"
    and res: "res = caps @ groupTexts sensorRegex ps"
    by blast
  from ps show ?thesis
  proof (rule sensorRegex_pieces)
    fix p1 p2 p4 p5 p6 p8 p9 p10 p12 p13 p14 p16 p17
    assume eq: "ps = [p1, p2, [pipe], p4, p5, p6, [pipe], p8, p9, p10, [pipe], p12, p13, p14, [pipe], p16, p17]"
      and f: "p1 \<noteq> []" "list_all notPipe p1" "list_all reSpace p2"
        "list_all reSpace p4" "p5 \<noteq> []" "list_all notPipe p5" "list_all reSpace p6"
        "list_all reSpace p8" "p9 \<noteq> []" "list_all reWord p9" "list_all reSpace p10"
        "list_all reSpace p12" "p13 \<noteq> []" "list_all notPipe p13" "list_all reSpace p14"
        "list_all reSpace p16" "p17 \<noteq> []" "list_all anyChar p17"
    show ?thesis
    proof (rule that [of p1 p2 p4 p5 p6 p8 p9 p10 p12 p13 p14 p16 p17])
      show "l = (p1 @ p2) @ pipe # (p4 @ p5 @ p6) @ pipe # (p8 @ p9 @ p10) @ pipe #
                (p12 @ p13 @ p14) @ pipe # (p16 @ p17)"
        by (simp add: l eq)
      show "res = caps @ [p1, p5, p9, p13, p17]"
        by (simp add: res eq sensorRegex_def)
    qed (use f in simp_all)
  qed
qed

lemma sensorRegex_fields:
  assumes "matchFrom sensorRegex l caps = Some res"
  obtains f1 f2 a w b f4 f5 where
    "l = f1 @ pipe # f2 @ pipe # (a @ w @ b) @ pipe # f4 @ pipe # f5"
    "f1 \<noteq> []" "pipe \<notin> set f1" "f2 \<noteq> []" "pipe \<notin> set f2"
    "list_all reSpace a" "w \<noteq> []" "list_all reWord w" "list_all reSpace b"
    "f4 \<noteq> []" "pipe \<notin> set f4" "f5 \<noteq> []"
  using assms
proof (rule sensorRegex_groups)
  fix g1 b1 a2 g2 b2 a3 g3 b3 a4 g4 b4 a5 g5
  assume l: "l = (g1 @ b1) @ pipe # (a2 @ g2 @ b2) @ pipe # (a3 @ g3 @ b3) @ pipe # (a4 @ g4 @ b4)
           @ pipe # (a5 @ g5)"
    and f: "g1 \<noteq> []" "list_all notPipe g1" "list_all reSpace b1"
    "list_all reSpace a2" "g2 \<noteq> []" "list_all notPipe g2" "list_all reSpace b2"
    "list_all reSpace a3" "g3 \<noteq> []" "list_all reWord g3" "list_all reSpace b3"
    "list_all reSpace a4" "g4 \<noteq> []" "list_all notPipe g4" "list_all reSpace b4"
    "list_all reSpace a5" "g5 \<noteq> []" "list_all anyChar g5"
  show ?thesis
    by (rule that [of "g1 @ b1" "a2 @ g2 @ b2" a3 g3 b3 "a4 @ g4 @ b4" "a5 @ g5"])
       (use l f in \<open>simp_all add: notPipe_set reSpace_set\<close>)
qed

lemma sensorRegex_shape:
  assumes "matchFrom sensorRegex l caps = Some res"
  shows "fiveFieldShape l"
  using assms
proof (rule sensorRegex_fields)
  fix f1 f2 a w b f4 f5
  assume l: "l = f1 @ pipe # f2 @ pipe # (a @ w @ b) @ pipe # f4 @ pipe # f5"
    and n: "f1 \<noteq> []" "f2 \<noteq> []" "f4 \<noteq> []" "f5 \<noteq> []"
    and p: "pipe \<notin> set f1" "pipe \<notin> set f2" "pipe \<notin> set f4"
    and w: "list_all reSpace a" "w \<noteq> []" "list_all reWord w" "list_all reSpace b"
  from w have p3: "pipe \<notin> set (a @ w @ b)"
    by (simp add: reSpace_set reWord_set)
  have s4: "Split (f4 @ pipe # f5) pipe = f4 # Split f5 pipe"
    by (rule Split_append_sep [OF p(3)])
  have s3: "Split ((a @ w @ b) @ pipe # f4 @ pipe # f5) pipe = (a @ w @ b) # f4 # Split f5 pipe"
    by (simp only: Split_append_sep [OF p3] s4)
  have s2: "Split (f2 @ pipe # (a @ w @ b) @ pipe # f4 @ pipe # f5) pipe =
              f2 # (a @ w @ b) # f4 # Split f5 pipe"
    by (simp only: Split_append_sep [OF p(2)] s3)
  have sp: "Split l pipe = f1 # f2 # (a @ w @ b) # f4 # Split f5 pipe"
    unfolding l by (simp only: Split_append_sep [OF p(1)] s2)
  obtain x xs where x: "Split f5 pipe = x # xs"
    using Split_not_Nil [of f5 pipe] by (cases "Split f5 pipe") auto
  have "5 < length (Split l pipe) \<or> Split l pipe ! 4 \<noteq> []"
  proof (cases xs)
    case Nil
    with x have "x = f5" by (simp add: Split_single)
    with n(4) show ?thesis by (simp add: sp x)
  next
    case (Cons y ys)
    then show ?thesis by (simp add: sp x)
  qed
  then show ?thesis
    using n wordField_pieces [OF w] by (simp add: fiveFieldShape_def Let_def sp x)
qed

lemma FindStringSubmatch_shape:
  "\<not> fiveFieldShape l \<Longrightarrow> FindStringSubmatch sensorRegex l = []"
proof (cases "matchFrom sensorRegex l []")
  case None
  then show ?thesis by (simp add: FindStringSubmatch_def)
next
  case (Some res)
  assume "\<not> fiveFieldShape l"
  with sensorRegex_shape [OF Some] show ?thesis by simp
qed

text \<open>The groups of a match, trimmed, are the fields of the line, trimmed.\<close>

lemma sensorRegex_trimmed_groups:
  assumes m: "matchFrom sensorRegex l [] = Some res"
    and l: "l = f1 @ pipe # f2 @ pipe # f3 @ pipe # f4 @ pipe # f5"
    and p: "pipe \<notin> set f1" "pipe \<notin> set f2" "pipe \<notin> set f3" "pipe \<notin> set f4"
  shows "length res = 5 \<and> TrimSpace (res ! 0) = TrimSpace f1 \<and> TrimSpace (res ! 1) = TrimSpace f2
         \<and> TrimSpace (res ! 2) = TrimSpace f3 \<and> TrimSpace (res ! 3) = TrimSpace f4
         \<and> TrimSpace (res ! 4) = TrimSpace f5"
  using m
proof (rule sensorRegex_groups)
  fix g1 b1 a2 g2 b2 a3 g3 b3 a4 g4 b4 a5 g5
  assume l': "l = (g1 @ b1) @ pipe # (a2 @ g2 @ b2) @ pipe # (a3 @ g3 @ b3) @ pipe # (a4 @ g4 @ b4)
           @ pipe # (a5 @ g5)"
    and res: "res = [] @ [g1, g2, g3, g4, g5]"
    and f: "list_all notPipe g1" "list_all reSpace b1"
    "list_all reSpace a2" "list_all notPipe g2" "list_all reSpace b2"
    "list_all reSpace a3" "list_all reWord g3" "list_all reSpace b3"
    "list_all reSpace a4" "list_all notPipe g4" "list_all reSpace b4"
    "list_all reSpace a5"
  have q: "pipe \<notin> set (g1 @ b1)" "pipe \<notin> set (a2 @ g2 @ b2)" "pipe \<notin> set (a3 @ g3 @ b3)"
    "pipe \<notin> set (a4 @ g4 @ b4)"
    using f by (simp_all add: notPipe_set reSpace_set reWord_set)
  from l l' have e0: "f1 @ pipe # (f2 @ pipe # f3 @ pipe # f4 @ pipe # f5) =
      (g1 @ b1) @ pipe # ((a2 @ g2 @ b2) @ pipe # (a3 @ g3 @ b3) @ pipe # (a4 @ g4 @ b4) @ pipe # (a5 @ g5))"
    by simp
  from append_sep_eq [OF e0 p(1) q(1)]
  have e1: "f1 = g1 @ b1" "f2 @ pipe # (f3 @ pipe # f4 @ pipe # f5) =
      (a2 @ g2 @ b2) @ pipe # ((a3 @ g3 @ b3) @ pipe # (a4 @ g4 @ b4) @ pipe # (a5 @ g5))"
    by simp_all
  from append_sep_eq [OF e1(2) p(2) q(2)]
  have e2: "f2 = a2 @ g2 @ b2" "f3 @ pipe # (f4 @ pipe # f5) =
      (a3 @ g3 @ b3) @ pipe # ((a4 @ g4 @ b4) @ pipe # (a5 @ g5))"
    by simp_all
  from append_sep_eq [OF e2(2) p(3) q(3)]
  have e3: "f3 = a3 @ g3 @ b3" "f4 @ pipe # f5 = (a4 @ g4 @ b4) @ pipe # (a5 @ g5)"
    by simp_all
  from append_sep_eq [OF e3(2) p(4) q(4)]
  have e4: "f4 = a4 @ g4 @ b4" "f5 = a5 @ g5"
    by simp_all
  have "TrimSpace f1 = TrimSpace g1"
    using TrimSpace_reSpace [of "[]" b1 g1] f(2) by (simp add: e1(1))
  moreover have "TrimSpace f2 = TrimSpace g2"
    unfolding e2(1) using f(3,5) by (rule TrimSpace_reSpace)
  moreover have "TrimSpace f3 = TrimSpace g3"
    unfolding e3(1) using f(6,8) by (rule TrimSpace_reSpace)
  moreover have "TrimSpace f4 = TrimSpace g4"
    unfolding e4(1) using f(9,11) by (rule TrimSpace_reSpace)
  moreover have "TrimSpace f5 = TrimSpace g5"
    using TrimSpace_reSpace [of a5 "[]" g5] f(12) by (simp add: e4(2))
  ultimately show ?thesis by (simp add: res)
qed

lemma FindStringSubmatch_fields:
  assumes "l = f1 @ pipe # f2 @ pipe # f3 @ pipe # f4 @ pipe # f5"
    and "pipe \<notin> set f1" "pipe \<notin> set f2" "pipe \<notin> set f3" "pipe \<notin> set f4"
    and "FindStringSubmatch sensorRegex l = matches" "matches \<noteq> []"
  shows "length matches = 6 \<and> TrimSpace (matches ! 1) = TrimSpace f1
         \<and> TrimSpace (matches ! 2) = TrimSpace f2 \<and> TrimSpace (matches ! 3) = TrimSpace f3
         \<and> TrimSpace (matches ! 4) = TrimSpace f4 \<and> TrimSpace (matches ! 5) = TrimSpace f5"
proof -
  from assms(6,7) obtain res where res: "matchFrom sensorRegex l [] = Some res"
    "matches = l # res"
    by (auto simp: FindStringSubmatch_def split: option.splits)
  from sensorRegex_trimmed_groups [OF res(1) assms(1-5)] show ?thesis
    by (simp add: res(2))
qed

lemma FindStringSubmatch_length:
  "length (FindStringSubmatch sensorRegex l) = 6 \<or> FindStringSubmatch sensorRegex l = []"
proof (cases "matchFrom sensorRegex l []")
  case None
  then show ?thesis by (simp add: FindStringSubmatch_def)
next
  case (Some res)
  then have "length res = 5" by (rule sensorRegex_groups) simp
  with Some show ?thesis by (simp add: FindStringSubmatch_def)
qed

text \<open>The converse: on a line without a line feed the pattern matches exactly the lines
  of the shape \<open>fiveFieldShape\<close>.\<close>

lemma firstSome_None_iff: "firstSome f ks = None \<longleftrightarrow> (\<forall>k\<in>set ks. f k = None)"
  by (induction ks) (auto split: option.splits)

lemma fits_itemLens: "fits i p \<Longrightarrow> length p \<in> set (itemLens i (p @ rest))"
proof (cases i)
  case (Lit c)
  assume "fits i p"
  with Lit show ?thesis by simp
next
  case (Star q)
  assume "fits i p"
  with Star have "takeWhile q (p @ rest) = p @ takeWhile q rest"
    by (simp add: list_all_iff)
  with Star show ?thesis by simp
next
  case (Plus q)
  assume f: "fits i p"
  with Plus have "takeWhile q (p @ rest) = p @ takeWhile q rest"
    by (simp add: list_all_iff)
  moreover from f Plus have "1 \<le> length p" by (cases p) auto
  ultimately show ?thesis using Plus by simp
qed

lemma matchFrom_complete:
  "list_all2 fits (map itemOf ns) ps \<Longrightarrow> matchFrom ns (concat ps) caps \<noteq> None"
proof (induction ns arbitrary: ps caps)
  case Nil
  then show ?case by simp
next
  case (Cons n ns)
  from Cons.prems obtain p ps' where ps: "ps = p # ps'" and f: "fits (itemOf n) p"
    and r: "list_all2 fits (map itemOf ns) ps'"
    by (auto simp: list_all2_Cons1)
  let ?caps = "case n of Plain i \<Rightarrow> caps | Group i \<Rightarrow> caps @ [take (length p) (concat ps)]"
  have "matchFrom ns (drop (length p) (concat ps)) ?caps \<noteq> None"
    using Cons.IH [OF r, of ?caps] by (simp add: ps)
  moreover have "length p \<in> set (itemLens (itemOf n) (concat ps))"
    using fits_itemLens [OF f, of "concat ps'"] by (simp add: ps)
  ultimately show ?case
    by (auto simp: firstSome_None_iff)
qed

lemma Split_Cons_Cons:
  "Split l sep = f # g # gs \<Longrightarrow>
   \<exists>l'. l = f @ sep # l' \<and> sep \<notin> set f \<and> Split l' sep = g # gs"
proof (induction l arbitrary: f)
  case Nil
  then show ?case by simp
next
  case (Cons c cs)
  show ?case
  proof (cases "c = sep")
    case True
    with Cons.prems show ?thesis by auto
  next
    case False
    with Cons.prems obtain f' where f': "f = c # f'" "Split cs sep = f' # g # gs"
      by (auto split: list.splits)
    from Cons.IH [OF f'(2)] obtain l' where "cs = f' @ sep # l'" "sep \<notin> set f'"
      "Split l' sep = g # gs" by blast
    with False f'(1) show ?thesis by auto
  qed
qed

lemma wordField_split:
  assumes "wordField f"
  obtains a w b where "f = a @ w @ b" "list_all reSpace a" "w \<noteq> []" "list_all reWord w"
    "list_all reSpace b"
proof (rule that [of "takeWhile reSpace f" "takeWhile reWord (dropWhile reSpace f)"
      "dropWhile reWord (dropWhile reSpace f)"])
  show "f = takeWhile reSpace f @ takeWhile reWord (dropWhile reSpace f) @
          dropWhile reWord (dropWhile reSpace f)"
    by simp
  show "list_all reSpace (takeWhile reSpace f)"
    by (auto simp: list_all_iff dest: set_takeWhileD)
  show "list_all reWord (takeWhile reWord (dropWhile reSpace f))"
    by (auto simp: list_all_iff dest: set_takeWhileD)
  show "takeWhile reWord (dropWhile reSpace f) \<noteq> []"
    "list_all reSpace (dropWhile reWord (dropWhile reSpace f))"
    using assms by (simp_all add: wordField_def Let_def)
qed

lemma shape_matches:
  assumes "fiveFieldShape l" "newline \<notin> set l"
  shows "matchFrom sensorRegex l caps \<noteq> None"
proof -
  let ?fs = "Split l pipe"
  from assms(1) have len: "5 \<le> length ?fs" by (simp add: fiveFieldShape_def Let_def)
  then obtain f1 f2 f3 f4 x xs where fs: "?fs = f1 # f2 # f3 # f4 # x # xs"
    by (cases ?fs; simp; rename_tac a as, case_tac as; simp; rename_tac b bs, case_tac bs; simp;
        rename_tac c cs, case_tac cs; simp; rename_tac d ds, case_tac ds; simp)
  from Split_Cons_Cons [OF fs] obtain l1 where l1: "l = f1 @ pipe # l1" "pipe \<notin> set f1"
    "Split l1 pipe = f2 # f3 # f4 # x # xs" by blast
  from Split_Cons_Cons [OF l1(3)] obtain l2 where l2: "l1 = f2 @ pipe # l2" "pipe \<notin> set f2"
    "Split l2 pipe = f3 # f4 # x # xs" by blast
  from Split_Cons_Cons [OF l2(3)] obtain l3 where l3: "l2 = f3 @ pipe # l3" "pipe \<notin> set f3"
    "Split l3 pipe = f4 # x # xs" by blast
  from Split_Cons_Cons [OF l3(3)] obtain l4 where l4: "l3 = f4 @ pipe # l4" "pipe \<notin> set f4"
    "Split l4 pipe = x # xs" by blast
  from assms(1) have sh: "f1 \<noteq> []" "f2 \<noteq> []" "wordField f3" "f4 \<noteq> []" "xs \<noteq> [] \<or> x \<noteq> []"
    by (auto simp: fiveFieldShape_def Let_def fs)
  have "l4 \<noteq> []"
    using l4(3) sh(5) by (cases l4) auto
  from sh(3) obtain a w b where w: "f3 = a @ w @ b" "list_all reSpace a" "w \<noteq> []"
    "list_all reWord w" "list_all reSpace b"
    by (rule wordField_split)
  have any: "list_all anyChar l4"
    using assms(2) by (auto simp: l1(1) l2(1) l3(1) l4(1) list_all_iff anyChar_def)
  let ?ps = "[f1, [], [pipe], [], f2, [], [pipe], a, w, b, [pipe], [], f4, [], [pipe], [], l4]"
  have "list_all2 fits (map itemOf sensorRegex) ?ps"
    using sh(1,2,4) l1(2) l2(2) l4(2) w(2-5) any \<open>l4 \<noteq> []\<close>
    by (auto simp: sensorRegex_def list_all_iff notPipe_def)
  moreover have "l = concat ?ps"
    by (simp add: l1(1) l2(1) l3(1) l4(1) w(1))
  ultimately show ?thesis
    using matchFrom_complete by blast
qed

lemma FindStringSubmatch_iff_shape:
  "newline \<notin> set l \<Longrightarrow> FindStringSubmatch sensorRegex l \<noteq> [] \<longleftrightarrow> fiveFieldShape l"
proof
  assume "newline \<notin> set l" "FindStringSubmatch sensorRegex l \<noteq> []"
  then show "fiveFieldShape l"
    using FindStringSubmatch_shape [of l] by blast
next
  assume "newline \<notin> set l" "fiveFieldShape l"
  then show "FindStringSubmatch sensorRegex l \<noteq> []"
    using shape_matches [of l "[]"] by (auto simp: FindStringSubmatch_def split: option.splits)
qed

section \<open>Properties of the parser\<close>

lemma parseLines_Cons: "parseLines (line0 # lines) sensors = parseLines lines (sensors @ lineReadings line0)"
  by (simp add: lineReadings_def Let_def split: prod.splits)

lemma parseLines_concat: "parseLines lines sensors = sensors @ concat (map lineReadings lines)"
  by (induction lines arbitrary: sensors) (simp_all add: parseLines_Cons del: parseLines.simps(2))

lemma matchFrom_sensorRegex_Nil: "FindStringSubmatch sensorRegex [] = []"
  by code_simp

lemma lineReadings_rejected:
  "length (FindStringSubmatch sensorRegex (TrimSpace line0)) \<noteq> 6 \<Longrightarrow> lineReadings line0 = []"
  by (simp add: lineReadings_def Let_def)

lemma lineReadings_status:
  "TrimSpace (FindStringSubmatch sensorRegex (TrimSpace line0) ! 3) \<noteq> ''ok'' \<Longrightarrow> lineReadings line0 = []"
  by (simp add: lineReadings_def Let_def)

lemma lineReadings_no_reading:
  "Contains (TrimSpace (FindStringSubmatch sensorRegex (TrimSpace line0) ! 5)) ''No Reading''
    \<Longrightarrow> lineReadings line0 = []"
  by (simp add: lineReadings_def Let_def)

lemma parseValue_cases:
  "parseValue v = (x, u, t) \<Longrightarrow> (u, t) \<in> set unitPairs \<or> (x = Fin 0 \<and> u = [] \<and> t = [])"
  by (auto simp: parseValue_def unitPairs_def Let_def split: option.splits)

lemma lineReadings_cases:
  "lineReadings line0 = [] \<or>
   (\<exists>r. lineReadings line0 = [r] \<and> (Unit r, Type r) \<in> set unitPairs \<and> Status r = ''ok'')"
proof -
  let ?m = "FindStringSubmatch sensorRegex (TrimSpace line0)"
  obtain x u t where pv: "parseValue (TrimSpace (?m ! 5)) = (x, u, t)"
    by (cases "parseValue (TrimSpace (?m ! 5))") auto
  from parseValue_cases [OF pv] show ?thesis
    using pv by (auto simp: lineReadings_def Let_def isZero_def unitPairs_def)
qed

lemma parseLines_units:
  "r \<in> set (parseLines lines []) \<Longrightarrow> (Unit r, Type r) \<in> set unitPairs \<and> Status r = ''ok''"
proof -
  assume "r \<in> set (parseLines lines [])"
  then obtain l where "r \<in> set (lineReadings l)"
    by (auto simp: parseLines_concat)
  with lineReadings_cases [of l] show ?thesis by auto
qed

lemma parseValue_unitOf:
  assumes "Fields (TrimSpace v) = tok # toks" "ParseFloat tok = Inr x"
    and "unitOf (TrimSpace v) = Some (u, t)"
  shows "parseValue v = (x, u, t)"
  using assms
  by (auto simp: parseValue_def keywordValue_def unitOf_def Let_def split: if_splits)

lemma unitOf_unitPairs: "unitOf v = Some (u, t) \<Longrightarrow> (u, t) \<in> set unitPairs"
  by (auto simp: unitOf_def unitPairs_def split: if_splits)

lemma lineReadings_emitted:
  assumes "FindStringSubmatch sensorRegex (TrimSpace line0) = matches" "length matches = 6"
    and "TrimSpace (matches ! 3) = ''ok''"
    and "\<not> Contains (TrimSpace (matches ! 5)) ''No Reading''"
    and "parseValue (TrimSpace (matches ! 5)) = (x, u, t)" "u \<noteq> []"
  shows "lineReadings line0 =
           [\<lparr>Name = TrimSpace (matches ! 1), ID = TrimSpace (matches ! 2), Status = ''ok'',
             Entity = TrimSpace (matches ! 4), Value = x, Unit = u, Type = t\<rparr>]"
proof -
  have "TrimSpace line0 \<noteq> []"
    using assms(1,2) matchFrom_sensorRegex_Nil by auto
  with assms show ?thesis
    by (simp add: lineReadings_def Let_def)
qed

lemma Split_three:
  "newline \<notin> set l1 \<Longrightarrow> newline \<notin> set l2 \<Longrightarrow> newline \<notin> set l3 \<Longrightarrow>
   Split (l1 @ newline # l2 @ newline # l3) newline = [l1, l2, l3]"
  by (simp add: Split_append_sep Split_no_sep)

lemma parseSensorData_one_line:
  "newline \<notin> set l \<Longrightarrow> parseSensorData l = lineReadings l"
  by (simp add: parseSensorData_def Split_no_sep lineReadings_def)

lemma few_fields_not_shape: "length (Split l pipe) < 5 \<Longrightarrow> \<not> fiveFieldShape l"
  by (simp add: fiveFieldShape_def Let_def)

section \<open>Properties of \<open>updateMetrics\<close>\<close>

lemma gaugeWrites_Cons:
  "gaugeWrites ty host (s # ss) =
    (if Type s = ty then ((Name s, ID s, host), Value s) # gaugeWrites ty host ss
     else gaugeWrites ty host ss)"
  by (simp add: gaugeWrites_def)

lemma gaugeWrites_Nil: "gaugeWrites ty host [] = []"
  by (simp add: gaugeWrites_def)

lemma SetGauge_labelPanic:
  "SetGauge g n i h v =
     (case labelPanic n i h of Some p \<Rightarrow> Inl p | None \<Rightarrow> Inr (g((n, i, h) \<mapsto> v)))"
  by (simp add: SetGauge_def labelPanic_def)

lemma updateSensor_Inl: "updateSensor s host r = Inl p \<longleftrightarrow> sensorPanic s host = Some p"
  by (cases "labelPanic (Name s) (ID s) host")
     (auto simp: updateSensor_def sensorPanic_def knownType_def SetGauge_labelPanic)

lemma updateMetrics_Inl: "updateMetrics ss host r = Inl p \<longleftrightarrow> panicOf ss host = Some p"
proof (induction ss arbitrary: r)
  case Nil
  then show ?case by simp
next
  case (Cons s ss)
  show ?case
  proof (cases "updateSensor s host r")
    case (Inl q)
    then have "sensorPanic s host = Some q" by (simp add: updateSensor_Inl)
    with Inl show ?thesis by simp
  next
    case (Inr r1)
    have "sensorPanic s host = None"
    proof (cases "sensorPanic s host")
      case (Some q)
      then have "updateSensor s host r = Inl q" by (simp add: updateSensor_Inl)
      with Inr show ?thesis by simp
    qed simp
    with Inr Cons.IH [of r1] show ?thesis by simp
  qed
qed

lemma updateMetrics_Inr_iff: "(\<exists>r'. updateMetrics ss host r = Inr r') \<longleftrightarrow> panicOf ss host = None"
proof (cases "updateMetrics ss host r")
  case (Inl p)
  then have "panicOf ss host = Some p" by (simp add: updateMetrics_Inl)
  with Inl show ?thesis by simp
next
  case (Inr r')
  have "panicOf ss host = None"
  proof (cases "panicOf ss host")
    case (Some p)
    then have "updateMetrics ss host r = Inl p" by (simp add: updateMetrics_Inl)
    with Inr show ?thesis by simp
  qed simp
  with Inr show ?thesis by simp
qed

lemma panicOf_valid:
  "list_all (\<lambda>s. ValidString (Name s) \<and> ValidString (ID s)) ss \<Longrightarrow> ValidString host \<Longrightarrow>
   panicOf ss host = None"
  by (induction ss) (simp_all add: sensorPanic_def labelPanic_def)

lemma updateSensor_voltage:
  "updateSensor s host r = Inr r' \<Longrightarrow>
   voltageGauge r' =
     (if Type s = ''voltage'' then (voltageGauge r)((Name s, ID s, host) \<mapsto> Value s)
      else voltageGauge r)"
  by (cases "labelPanic (Name s) (ID s) host")
     (auto simp: updateSensor_def SetGauge_labelPanic split: if_splits)

lemma updateSensor_temperature:
  "updateSensor s host r = Inr r' \<Longrightarrow>
   temperatureGauge r' =
     (if Type s = ''temperature'' then (temperatureGauge r)((Name s, ID s, host) \<mapsto> Value s)
      else temperatureGauge r)"
  by (cases "labelPanic (Name s) (ID s) host")
     (auto simp: updateSensor_def SetGauge_labelPanic split: if_splits)

lemma updateSensor_fan:
  "updateSensor s host r = Inr r' \<Longrightarrow>
   fanGauge r' =
     (if Type s = ''fan'' then (fanGauge r)((Name s, ID s, host) \<mapsto> Value s)
      else fanGauge r)"
  by (cases "labelPanic (Name s) (ID s) host")
     (auto simp: updateSensor_def SetGauge_labelPanic split: if_splits)

lemma updateSensor_power:
  "updateSensor s host r = Inr r' \<Longrightarrow>
   powerGauge r' =
     (if Type s = ''power'' then (powerGauge r)((Name s, ID s, host) \<mapsto> Value s)
      else powerGauge r)"
  by (cases "labelPanic (Name s) (ID s) host")
     (auto simp: updateSensor_def SetGauge_labelPanic split: if_splits)

lemma updateSensor_current:
  "updateSensor s host r = Inr r' \<Longrightarrow>
   currentGauge r' =
     (if Type s = ''current'' then (currentGauge r)((Name s, ID s, host) \<mapsto> Value s)
      else currentGauge r)"
  by (cases "labelPanic (Name s) (ID s) host")
     (auto simp: updateSensor_def SetGauge_labelPanic split: if_splits)

lemma updateSensor_more: "updateSensor s host r = Inr r' \<Longrightarrow> registry.more r' = registry.more r"
  by (cases "labelPanic (Name s) (ID s) host")
     (auto simp: updateSensor_def SetGauge_labelPanic split: if_splits)

text \<open>After a pass that does not panic, a gauge is the gauge before it, overridden by the
  values written to it: under each combination of labels the last value written, and the
  old value where nothing was written.\<close>

lemma voltageGauge_updateMetrics:
  "updateMetrics ss host r = Inr r' \<Longrightarrow>
   voltageGauge r' = voltageGauge r ++ map_of (rev (gaugeWrites ''voltage'' host ss))"
proof (induction ss arbitrary: r)
  case Nil
  then show ?case by (simp add: gaugeWrites_Nil)
next
  case (Cons s ss)
  from Cons.prems obtain r1 where u: "updateSensor s host r = Inr r1"
    and m: "updateMetrics ss host r1 = Inr r'"
    by (auto split: sum.splits)
  from Cons.IH [OF m] updateSensor_voltage [OF u] show ?case
    by (simp add: gaugeWrites_Cons)
qed

lemma temperatureGauge_updateMetrics:
  "updateMetrics ss host r = Inr r' \<Longrightarrow>
   temperatureGauge r' = temperatureGauge r ++ map_of (rev (gaugeWrites ''temperature'' host ss))"
proof (induction ss arbitrary: r)
  case Nil
  then show ?case by (simp add: gaugeWrites_Nil)
next
  case (Cons s ss)
  from Cons.prems obtain r1 where u: "updateSensor s host r = Inr r1"
    and m: "updateMetrics ss host r1 = Inr r'"
    by (auto split: sum.splits)
  from Cons.IH [OF m] updateSensor_temperature [OF u] show ?case
    by (simp add: gaugeWrites_Cons)
qed

lemma fanGauge_updateMetrics:
  "updateMetrics ss host r = Inr r' \<Longrightarrow>
   fanGauge r' = fanGauge r ++ map_of (rev (gaugeWrites ''fan'' host ss))"
proof (induction ss arbitrary: r)
  case Nil
  then show ?case by (simp add: gaugeWrites_Nil)
next
  case (Cons s ss)
  from Cons.prems obtain r1 where u: "updateSensor s host r = Inr r1"
    and m: "updateMetrics ss host r1 = Inr r'"
    by (auto split: sum.splits)
  from Cons.IH [OF m] updateSensor_fan [OF u] show ?case
    by (simp add: gaugeWrites_Cons)
qed

lemma powerGauge_updateMetrics:
  "updateMetrics ss host r = Inr r' \<Longrightarrow>
   powerGauge r' = powerGauge r ++ map_of (rev (gaugeWrites ''power'' host ss))"
proof (induction ss arbitrary: r)
  case Nil
  then show ?case by (simp add: gaugeWrites_Nil)
next
  case (Cons s ss)
  from Cons.prems obtain r1 where u: "updateSensor s host r = Inr r1"
    and m: "updateMetrics ss host r1 = Inr r'"
    by (auto split: sum.splits)
  from Cons.IH [OF m] updateSensor_power [OF u] show ?case
    by (simp add: gaugeWrites_Cons)
qed

lemma currentGauge_updateMetrics:
  "updateMetrics ss host r = Inr r' \<Longrightarrow>
   currentGauge r' = currentGauge r ++ map_of (rev (gaugeWrites ''current'' host ss))"
proof (induction ss arbitrary: r)
  case Nil
  then show ?case by (simp add: gaugeWrites_Nil)
next
  case (Cons s ss)
  from Cons.prems obtain r1 where u: "updateSensor s host r = Inr r1"
    and m: "updateMetrics ss host r1 = Inr r'"
    by (auto split: sum.splits)
  from Cons.IH [OF m] updateSensor_current [OF u] show ?case
    by (simp add: gaugeWrites_Cons)
qed

lemma more_updateMetrics:
  "updateMetrics ss host r = Inr r' \<Longrightarrow> registry.more r' = registry.more r"
proof (induction ss arbitrary: r)
  case Nil
  then show ?case by simp
next
  case (Cons s ss)
  from Cons.prems obtain r1 where u: "updateSensor s host r = Inr r1"
    and m: "updateMetrics ss host r1 = Inr r'"
    by (auto split: sum.splits)
  from Cons.IH [OF m] updateSensor_more [OF u] show ?case by simp
qed

lemma map_add_twice: "(m ++ f) ++ f = m ++ f"
  by (rule ext) (simp add: map_add_def split: option.splits)

lemma updateMetrics_twice:
  assumes "updateMetrics ss host r = Inr r'"
  shows "updateMetrics ss host r' = Inr r'"
proof -
  from assms have "panicOf ss host = None"
    using updateMetrics_Inr_iff [of ss host r] by blast
  then obtain r'' where r'': "updateMetrics ss host r' = Inr r''"
    using updateMetrics_Inr_iff [of ss host r'] by blast
  have "r'' = r'"
    by (rule registry.equality)
       (simp_all add: voltageGauge_updateMetrics [OF r''] voltageGauge_updateMetrics [OF assms]
          temperatureGauge_updateMetrics [OF r''] temperatureGauge_updateMetrics [OF assms]
          fanGauge_updateMetrics [OF r''] fanGauge_updateMetrics [OF assms]
          powerGauge_updateMetrics [OF r''] powerGauge_updateMetrics [OF assms]
          currentGauge_updateMetrics [OF r''] currentGauge_updateMetrics [OF assms]
          more_updateMetrics [OF r''] more_updateMetrics [OF assms] map_add_twice)
  with r'' show ?thesis by simp
qed

lemma updateMetrics_bind:
  "(case updateMetrics ss host r of Inl p \<Rightarrow> Inl p | Inr r' \<Rightarrow> updateMetrics ss host r')
     = updateMetrics ss host r"
  by (cases "updateMetrics ss host r") (simp_all add: updateMetrics_twice)

lemma updateMetrics_two:
  assumes "Type v = ''voltage''" "Type t = ''temperature''"
    and "ValidString (Name v)" "ValidString (ID v)" "ValidString (Name t)" "ValidString (ID t)"
    and "ValidString host"
  shows "updateMetrics [v, t] host r =
     Inr (r\<lparr>voltageGauge := (voltageGauge r)((Name v, ID v, host) \<mapsto> Value v),
            temperatureGauge := (temperatureGauge r)((Name t, ID t, host) \<mapsto> Value t)\<rparr>)"
  using assms by (simp add: updateSensor_def SetGauge_def)

section \<open>Properties of the collection schedule\<close>

text \<open>In every state that a run reaches from \<open>afterNewTicker\<close>, the calls of
  \<open>collectMetrics\<close> are the ticks received, one more when the loop has made the call of
  its current round, and one more when the caller has made its own.\<close>

lemma step_counts:
  assumes "step config e st = Some st'"
    and "(caller st = AtGoStatement) = (loop st = NotStarted)"
    and "collectCalls st = ticksReceived st + (if loop st = LoopReceive then 1 else 0)
           + (if caller st = Returned then 1 else 0)"
  shows "(caller st' = AtGoStatement) = (loop st' = NotStarted) \<and>
         collectCalls st' = ticksReceived st' + (if loop st' = LoopReceive then 1 else 0)
           + (if caller st' = Returned then 1 else 0)"
  using assms
  by (cases e)
     (auto simp: callCollect_def split: callerPc.splits loopPc.splits if_splits sum.splits)

lemma run_counts:
  assumes "run config es st = Some st'"
    and "(caller st = AtGoStatement) = (loop st = NotStarted)"
    and "collectCalls st = ticksReceived st + (if loop st = LoopReceive then 1 else 0)
           + (if caller st = Returned then 1 else 0)"
  shows "collectCalls st' = ticksReceived st' + (if loop st' = LoopReceive then 1 else 0)
           + (if caller st' = Returned then 1 else 0)"
  using assms
proof (induction es arbitrary: st)
  case Nil
  then show ?case by simp
next
  case (Cons e es)
  from Cons.prems(1) obtain st1 where s1: "step config e st = Some st1"
    and r: "run config es st1 = Some st'"
    by (auto split: option.splits)
  from step_counts [OF s1 Cons.prems(2,3)] Cons.IH [OF r] show ?case by blast
qed

section \<open>Evaluating the classifier and the parser\<close>

lemma parseValue_volts_example:
  "parseValue ''12.240 Volts'' = (Fin (6890507429876859 / 562949953421312), ''volts'', ''voltage'')"
  by code_simp

lemma float64_of_12_24:
  "float64_of_rat (1224 / 100) = Inr (Fin (6890507429876859 / 562949953421312))"
  by code_simp

lemma parseValue_rpm_example: "parseValue ''850 RPM'' = (Fin 850, ''rpm'', ''fan'')"
  by code_simp

lemma parseValue_na_example: "parseValue ''N/A'' = (Fin 0, [], [])"
  by code_simp

lemma parseSensorData_na_example: "parseSensorData ''PSU1 Status    | 05h | ok  | 10.1 | N/A'' = []"
  by code_simp

lemma cpu_line_example:
  "parseSensorData ''CPU1 Temp      | 01h | ok  |  3.1 | 45 degrees C'' =
     [\<lparr>Name = ''CPU1 Temp'', ID = ''01h'', Status = ''ok'', Entity = ''3.1'',
       Value = Fin 45, Unit = ''celsius'', Type = ''temperature''\<rparr>]"
  by code_simp

lemma ns_line_trimmed:
  "TrimSpace ''CPU2 Temp      | 02h | ns  |  3.2 | 45 degrees C'' =
     ''CPU2 Temp      '' @ pipe # '' 02h '' @ pipe # '' ns  '' @ pipe # ''  3.2 '' @ pipe # '' 45 degrees C''"
  by code_simp

lemma ns_line_facts:
  "pipe \<notin> set ''CPU2 Temp      ''" "pipe \<notin> set '' 02h ''" "pipe \<notin> set '' ns  ''"
  "pipe \<notin> set ''  3.2 ''" "TrimSpace '' ns  '' \<noteq> ''ok''"
  by code_simp+

lemma marker_line_trimmed:
  "TrimSpace ''Fan2           | 05h | ok  |  7.2 | 0 RPM (No Reading)'' =
     ''Fan2           '' @ pipe # '' 05h '' @ pipe # '' ok  '' @ pipe # ''  7.2 '' @ pipe # '' 0 RPM (No Reading)''"
  by code_simp

lemma marker_line_facts:
  "pipe \<notin> set ''Fan2           ''" "pipe \<notin> set '' 05h ''" "pipe \<notin> set '' ok  ''"
  "pipe \<notin> set ''  7.2 ''" "Contains (TrimSpace '' 0 RPM (No Reading)'') ''No Reading''"
  "Contains (TrimSpace '' 0 RPM (No Reading)'') ''RPM''"
  by code_simp+

lemma watts_line_trimmed:
  "TrimSpace ''PS1 Power      | 0Ah | ok  | 10.1 | 0 Watts'' =
     ''PS1 Power      '' @ pipe # '' 0Ah '' @ pipe # '' ok  '' @ pipe # '' 10.1 '' @ pipe # '' 0 Watts''"
  by code_simp

lemma watts_line_shape:
  "fiveFieldShape (TrimSpace ''PS1 Power      | 0Ah | ok  | 10.1 | 0 Watts'')"
  "newline \<notin> set ''PS1 Power      | 0Ah | ok  | 10.1 | 0 Watts''"
  by code_simp+

lemma watts_line_fields:
  "pipe \<notin> set ''PS1 Power      ''" "pipe \<notin> set '' 0Ah ''" "pipe \<notin> set '' ok  ''"
  "pipe \<notin> set '' 10.1 ''" "TrimSpace '' ok  '' = ''ok''" "''0 Watts'' = TrimSpace '' 0 Watts''"
  "\<not> Contains ''0 Watts'' ''No Reading''" "Fields ''0 Watts'' = [''0'', ''Watts'']"
  "ParseFloat ''0'' = Inr (Fin 0)" "isZero (Fin 0)"
  "unitOf ''0 Watts'' = Some (''watts'', ''power'')"
  by code_simp+

lemma watts_line_trims:
  "TrimSpace ''PS1 Power      '' = ''PS1 Power''" "TrimSpace '' 0Ah '' = ''0Ah''"
  "TrimSpace '' 10.1 '' = ''10.1''"
  by code_simp+

lemma voltage_line_example:
  "parseSensorData ''12V            | 30h | ok  |  7.1 | 12.240 Volts'' =
     [\<lparr>Name = ''12V'', ID = ''30h'', Status = ''ok'', Entity = ''7.1'',
       Value = Fin (6890507429876859 / 562949953421312), Unit = ''volts'', Type = ''voltage''\<rparr>]"
  by code_simp

lemma malformed_line_example:
  "\<not> fiveFieldShape (TrimSpace ''Sensor Data Repository: 2 records'')"
  by code_simp

lemma no_newline_examples:
  "newline \<notin> set ''12V            | 30h | ok  |  7.1 | 12.240 Volts''"
  "newline \<notin> set ''Sensor Data Repository: 2 records''"
  "newline \<notin> set ''CPU1 Temp      | 01h | ok  |  3.1 | 45 degrees C''"
  by (simp_all add: newline_def)

lemma six_field_line_fields:
  "Split (TrimSpace ''PS1 Status     | 0Bh | ok  | 10.2 | 12 Volts | Presence detected'') pipe =
     [''PS1 Status     '', '' 0Bh '', '' ok  '', '' 10.2 '', '' 12 Volts '', '' Presence detected'']"
  by code_simp

lemma six_field_line_matches:
  "FindStringSubmatch sensorRegex
     (TrimSpace ''PS1 Status     | 0Bh | ok  | 10.2 | 12 Volts | Presence detected'') =
     [''PS1 Status     | 0Bh | ok  | 10.2 | 12 Volts | Presence detected'',
      ''PS1 Status     '', ''0Bh '', ''ok'', ''10.2 '', ''12 Volts | Presence detected'']"
  by code_simp

lemma six_field_line_reading:
  "parseSensorData ''PS1 Status     | 0Bh | ok  | 10.2 | 12 Volts | Presence detected'' =
     [\<lparr>Name = ''PS1 Status'', ID = ''0Bh'', Status = ''ok'', Entity = ''10.2'',
       Value = Fin 12, Unit = ''volts'', Type = ''voltage''\<rparr>]"
  by code_simp

lemma four_field_line_fields:
  "length (Split (TrimSpace ''Fan3           | 06h | ok  | 1200 RPM'') pipe) = 4"
  by code_simp

lemma valid_label_examples:
  "ValidString ''12V''" "ValidString ''30h''" "ValidString ''CPU1 Temp''" "ValidString ''01h''"
  "ValidString ''bmc''" "ValidString ''PS1 Status''" "ValidString ''0Bh''"
  by code_simp+

text \<open>A sensor name that is not valid UTF-8 passes the parser and makes the pass panic.\<close>

lemma non_utf8_name_reading:
  "parseSensorData (CHR 0xFF # '' | 30h | ok | 7.1 | 12 Volts'') =
     [\<lparr>Name = [CHR 0xFF], ID = ''30h'', Status = ''ok'', Entity = ''7.1'',
       Value = Fin 12, Unit = ''volts'', Type = ''voltage''\<rparr>]"
  by code_simp

lemma non_utf8_invalid: "\<not> ValidString [CHR 0xFF]"
  by code_simp

lemma non_utf8_name_panics:
  "collectMetrics config (Inr (CHR 0xFF # '' | 30h | ok | 7.1 | 12 Volts'')) registry0 =
     Inl (InvalidLabelValue [CHR 0xFF])"
  unfolding collectMetrics_def sum.case non_utf8_name_reading
  by (simp add: updateSensor_def SetGauge_def non_utf8_invalid)

lemma overwrite_report_readings:
  "parseSensorData (''12V            | 30h | ok  |  7.1 | 12.240 Volts'' @ newline #
                    ''12V            | 30h | ok  |  7.1 | 11 Volts'') =
     [\<lparr>Name = ''12V'', ID = ''30h'', Status = ''ok'', Entity = ''7.1'',
       Value = Fin (6890507429876859 / 562949953421312), Unit = ''volts'', Type = ''voltage''\<rparr>,
      \<lparr>Name = ''12V'', ID = ''30h'', Status = ''ok'', Entity = ''7.1'',
       Value = Fin 11, Unit = ''volts'', Type = ''voltage''\<rparr>]"
  by code_simp

lemma six_field_report_readings:
  "parseSensorData (''12V            | 30h | ok  |  7.1 | 12.240 Volts'' @ newline #
                    ''PS1 Status     | 0Bh | ok  | 10.2 | 12 Volts | Presence detected'' @ newline #
                    ''CPU1 Temp      | 01h | ok  |  3.1 | 45 degrees C'') =
     [\<lparr>Name = ''12V'', ID = ''30h'', Status = ''ok'', Entity = ''7.1'',
       Value = Fin (6890507429876859 / 562949953421312), Unit = ''volts'', Type = ''voltage''\<rparr>,
      \<lparr>Name = ''PS1 Status'', ID = ''0Bh'', Status = ''ok'', Entity = ''10.2'',
       Value = Fin 12, Unit = ''volts'', Type = ''voltage''\<rparr>,
      \<lparr>Name = ''CPU1 Temp'', ID = ''01h'', Status = ''ok'', Entity = ''3.1'',
       Value = Fin 45, Unit = ''celsius'', Type = ''temperature''\<rparr>]"
  by code_simp

section \<open>The claims\<close>

text \<open>
  C1.  For the single report line
  \<^verbatim>\<open>CPU1 Temp      | 01h | ok  |  3.1 | 45 degrees C\<close>
  the parser returns exactly one reading, with name \<open>CPU1 Temp\<close>, id \<open>01h\<close>, status
  \<open>ok\<close>, value 45, unit \<open>celsius\<close> and type \<open>temperature\<close> (and entity \<open>3.1\<close>).
\<close>

theorem C1_cpu_temperature_line:
  "parseSensorData ''CPU1 Temp      | 01h | ok  |  3.1 | 45 degrees C'' =
     [\<lparr>Name = ''CPU1 Temp'', ID = ''01h'', Status = ''ok'', Entity = ''3.1'',
       Value = Fin 45, Unit = ''celsius'', Type = ''temperature''\<rparr>]"
  by (rule cpu_line_example)

text \<open>
  C2.  The claim: before the first tick \<open>collectMetrics\<close> is called once.  The program calls
  it twice: once in the first round of the loop of the goroutine (line 250) and once from
  \<open>startMetricsCollection\<close> itself (line 255).  In every run, whatever the interleaving,
  once \<open>startMetricsCollection\<close> has returned and the loop waits for a tick, the number of
  calls is the number of ticks received plus two; before the first tick it is two.
\<close>

theorem C2_startup_collects_twice:
  assumes "run config es (afterNewTicker r) = Some st"
    and "caller st = Returned" and "loop st = LoopReceive"
  shows "collectCalls st = ticksReceived st + 2"
  using run_counts [OF assms(1)] assms(2,3) by (simp add: afterNewTicker_def)

theorem C2_startup_collects_twice_witness:
  "\<exists>st. run \<lparr>Host = ''bmc'', Username = ''admin'', Password = ''secret'', Port = 623\<rparr>
           [CallerStep (Inl ''down''), LoopStep (Inl ''down''), CallerStep (Inl ''down'')]
           (afterNewTicker \<lparr>voltageGauge = Map.empty, temperatureGauge = Map.empty,
              fanGauge = Map.empty, powerGauge = Map.empty, currentGauge = Map.empty\<rparr>)
         = Some st
       \<and> caller st = Returned \<and> loop st = LoopReceive \<and> ticksReceived st = 0
       \<and> collectCalls st = 2"
proof -
  let ?c = "\<lparr>Host = ''bmc'', Username = ''admin'', Password = ''secret'', Port = 623\<rparr>"
  let ?r = "\<lparr>voltageGauge = Map.empty, temperatureGauge = Map.empty,
          fanGauge = Map.empty, powerGauge = Map.empty, currentGauge = Map.empty\<rparr>"
  obtain st where h: "run ?c [CallerStep (Inl ''down''), LoopStep (Inl ''down''),
        CallerStep (Inl ''down'')] (afterNewTicker ?r) = Some st"
    and st: "caller st = Returned" "loop st = LoopReceive" "ticksReceived st = 0"
    by (simp add: afterNewTicker_def callCollect_def collectMetrics_def)
  from C2_startup_collects_twice [OF h st(1,2)] st(3) have "collectCalls st = 2"
    by simp
  with h st show ?thesis by blast
qed

text \<open>
  C3.  For every report and every registry, the pass (parse the report, update the
  registry) run twice in succession has the outcome of the pass run once.  When the pass
  returns a registry, the pass run again from that registry returns the same registry,
  and each gauge of it is the gauge before the pass overridden by the values written to
  that gauge, keyed by the labels: under a combination \<open>(name, id, host)\<close> the last value
  written to the gauge of that type, and elsewhere the value from before.  One \<open>Set\<close>
  stores its value under its labels and changes nothing else.  The pass returns a registry
  when the host and the names and ids of the readings are valid UTF-8; when a label value
  is not, the first pass panics, whatever the registry, and no second pass follows.
\<close>

theorem C3_pipeline_idempotent:
  "(case collectMetrics config (Inr report) registry0 of
      Inl p \<Rightarrow> Inl p
    | Inr registry' \<Rightarrow> collectMetrics config (Inr report) registry')
     = collectMetrics config (Inr report) registry0
   \<and> (collectMetrics config (Inr report) registry0 = Inr registry1 \<longrightarrow>
        collectMetrics config (Inr report) registry1 = Inr registry1
        \<and> voltageGauge registry1 = voltageGauge registry0 ++
             map_of (rev (gaugeWrites ''voltage'' (Host config) (parseSensorData report)))
        \<and> temperatureGauge registry1 = temperatureGauge registry0 ++
             map_of (rev (gaugeWrites ''temperature'' (Host config) (parseSensorData report)))
        \<and> fanGauge registry1 = fanGauge registry0 ++
             map_of (rev (gaugeWrites ''fan'' (Host config) (parseSensorData report)))
        \<and> powerGauge registry1 = powerGauge registry0 ++
             map_of (rev (gaugeWrites ''power'' (Host config) (parseSensorData report)))
        \<and> currentGauge registry1 = currentGauge registry0 ++
             map_of (rev (gaugeWrites ''current'' (Host config) (parseSensorData report))))
   \<and> (collectMetrics config (Inr report) registry0 = Inl p \<longrightarrow>
        collectMetrics config (Inr report) registry2 = Inl p)
   \<and> (list_all (\<lambda>s. ValidString (Name s) \<and> ValidString (ID s)) (parseSensorData report)
        \<and> ValidString (Host config) \<longrightarrow>
        (\<exists>registry'. collectMetrics config (Inr report) registry0 = Inr registry'))
   \<and> (ValidString sensor_name \<and> ValidString sensor_id \<and> ValidString host \<longrightarrow>
        SetGauge g sensor_name sensor_id host v = Inr (g((sensor_name, sensor_id, host) \<mapsto> v)))
   \<and> (SetGauge g sensor_name sensor_id host v = Inr g' \<longrightarrow>
        g' (sensor_name, sensor_id, host) = Some v
        \<and> (\<forall>k. k \<noteq> (sensor_name, sensor_id, host) \<longrightarrow> g' k = g k))"
proof -
  let ?ss = "parseSensorData report"
  have 1: "(case collectMetrics config (Inr report) registry0 of
      Inl p \<Rightarrow> Inl p
    | Inr registry' \<Rightarrow> collectMetrics config (Inr report) registry')
     = collectMetrics config (Inr report) registry0"
  proof (cases "updateMetrics ?ss (Host config) registry0")
    case (Inl q)
    then show ?thesis by (simp add: collectMetrics_def)
  next
    case (Inr r1)
    with updateMetrics_twice [OF Inr] show ?thesis by (simp add: collectMetrics_def)
  qed
  have 2: "collectMetrics config (Inr report) registry1 = Inr registry1
        \<and> voltageGauge registry1 = voltageGauge registry0 ++
             map_of (rev (gaugeWrites ''voltage'' (Host config) ?ss))
        \<and> temperatureGauge registry1 = temperatureGauge registry0 ++
             map_of (rev (gaugeWrites ''temperature'' (Host config) ?ss))
        \<and> fanGauge registry1 = fanGauge registry0 ++
             map_of (rev (gaugeWrites ''fan'' (Host config) ?ss))
        \<and> powerGauge registry1 = powerGauge registry0 ++
             map_of (rev (gaugeWrites ''power'' (Host config) ?ss))
        \<and> currentGauge registry1 = currentGauge registry0 ++
             map_of (rev (gaugeWrites ''current'' (Host config) ?ss))"
    if "collectMetrics config (Inr report) registry0 = Inr registry1"
  proof -
    from that have u: "updateMetrics ?ss (Host config) registry0 = Inr registry1"
      by (simp add: collectMetrics_def)
    from updateMetrics_twice [OF u] voltageGauge_updateMetrics [OF u]
      temperatureGauge_updateMetrics [OF u] fanGauge_updateMetrics [OF u]
      powerGauge_updateMetrics [OF u] currentGauge_updateMetrics [OF u]
    show ?thesis by (simp add: collectMetrics_def)
  qed
  have 3: "collectMetrics config (Inr report) registry2 = Inl p"
    if "collectMetrics config (Inr report) registry0 = Inl p"
    using that by (simp add: collectMetrics_def updateMetrics_Inl)
  have 4: "\<exists>registry'. collectMetrics config (Inr report) registry0 = Inr registry'"
    if "list_all (\<lambda>s. ValidString (Name s) \<and> ValidString (ID s)) ?ss" "ValidString (Host config)"
    using panicOf_valid [OF that] updateMetrics_Inr_iff [of ?ss "Host config" registry0]
    by (simp add: collectMetrics_def)
  have 5: "SetGauge g sensor_name sensor_id host v = Inr (g((sensor_name, sensor_id, host) \<mapsto> v))"
    if "ValidString sensor_name" "ValidString sensor_id" "ValidString host"
    using that by (simp add: SetGauge_def)
  have 6: "g' (sensor_name, sensor_id, host) = Some v
        \<and> (\<forall>k. k \<noteq> (sensor_name, sensor_id, host) \<longrightarrow> g' k = g k)"
    if "SetGauge g sensor_name sensor_id host v = Inr g'"
    using that by (auto simp: SetGauge_def split: if_splits)
  from 1 2 3 4 5 6 show ?thesis by blast
qed

theorem C3_pipeline_idempotent_witness:
  "collectMetrics \<lparr>Host = ''bmc'', Username = ''admin'', Password = ''secret'', Port = 623\<rparr>
     (Inr (''12V            | 30h | ok  |  7.1 | 12.240 Volts'' @ newline #
           ''12V            | 30h | ok  |  7.1 | 11 Volts''))
     \<lparr>voltageGauge = [(''5V'', ''31h'', ''bmc'') \<mapsto> Fin 5, (''12V'', ''30h'', ''bmc'') \<mapsto> Fin 5],
      temperatureGauge = Map.empty, fanGauge = Map.empty, powerGauge = Map.empty,
      currentGauge = Map.empty\<rparr>
   = Inr \<lparr>voltageGauge = [(''5V'', ''31h'', ''bmc'') \<mapsto> Fin 5, (''12V'', ''30h'', ''bmc'') \<mapsto> Fin 11],
      temperatureGauge = Map.empty, fanGauge = Map.empty, powerGauge = Map.empty,
      currentGauge = Map.empty\<rparr>
   \<and> collectMetrics \<lparr>Host = ''bmc'', Username = ''admin'', Password = ''secret'', Port = 623\<rparr>
     (Inr (''12V            | 30h | ok  |  7.1 | 12.240 Volts'' @ newline #
           ''12V            | 30h | ok  |  7.1 | 11 Volts''))
     \<lparr>voltageGauge = [(''5V'', ''31h'', ''bmc'') \<mapsto> Fin 5, (''12V'', ''30h'', ''bmc'') \<mapsto> Fin 11],
      temperatureGauge = Map.empty, fanGauge = Map.empty, powerGauge = Map.empty,
      currentGauge = Map.empty\<rparr>
   = Inr \<lparr>voltageGauge = [(''5V'', ''31h'', ''bmc'') \<mapsto> Fin 5, (''12V'', ''30h'', ''bmc'') \<mapsto> Fin 11],
      temperatureGauge = Map.empty, fanGauge = Map.empty, powerGauge = Map.empty,
      currentGauge = Map.empty\<rparr>"
proof -
  let ?c = "\<lparr>Host = ''bmc'', Username = ''admin'', Password = ''secret'', Port = 623\<rparr>"
  let ?rep = "''12V            | 30h | ok  |  7.1 | 12.240 Volts'' @ newline #
           ''12V            | 30h | ok  |  7.1 | 11 Volts''"
  let ?r0 = "\<lparr>voltageGauge = [(''5V'', ''31h'', ''bmc'') \<mapsto> Fin 5, (''12V'', ''30h'', ''bmc'') \<mapsto> Fin 5],
      temperatureGauge = Map.empty, fanGauge = Map.empty, powerGauge = Map.empty,
      currentGauge = Map.empty\<rparr>"
  let ?r1 = "\<lparr>voltageGauge = [(''5V'', ''31h'', ''bmc'') \<mapsto> Fin 5, (''12V'', ''30h'', ''bmc'') \<mapsto> Fin 11],
      temperatureGauge = Map.empty, fanGauge = Map.empty, powerGauge = Map.empty,
      currentGauge = Map.empty\<rparr>"
  have h: "collectMetrics ?c (Inr ?rep) ?r0 = Inr ?r1"
    unfolding collectMetrics_def sum.case overwrite_report_readings
    by (simp add: updateSensor_def SetGauge_def valid_label_examples)
  from C3_pipeline_idempotent [of ?c ?rep ?r0 ?r1] h
  have "collectMetrics ?c (Inr ?rep) ?r1 = Inr ?r1" by blast
  with h show ?thesis by (intro conjI)
qed

text \<open>
  C4.  The claim: a line that is not of the five-field shape is rejected and contributes
  no reading.  With the shape read as the specification words it (the bars cut the line
  into exactly five fields) the claim fails: the last group of the pattern, \<open>(.+)\<close>,
  takes the rest of the line, bars included, so a line of six fields matches and gives a
  reading.
\<close>

theorem C4_six_fields_counterexample:
  "\<not> spec_exactlyFiveFields
        (TrimSpace ''PS1 Status     | 0Bh | ok  | 10.2 | 12 Volts | Presence detected'')
   \<and> length (Split (TrimSpace ''PS1 Status     | 0Bh | ok  | 10.2 | 12 Volts | Presence detected'') pipe) = 6
   \<and> FindStringSubmatch sensorRegex
        (TrimSpace ''PS1 Status     | 0Bh | ok  | 10.2 | 12 Volts | Presence detected'') =
        [''PS1 Status     | 0Bh | ok  | 10.2 | 12 Volts | Presence detected'',
         ''PS1 Status     '', ''0Bh '', ''ok'', ''10.2 '', ''12 Volts | Presence detected'']
   \<and> parseSensorData ''PS1 Status     | 0Bh | ok  | 10.2 | 12 Volts | Presence detected'' =
        [\<lparr>Name = ''PS1 Status'', ID = ''0Bh'', Status = ''ok'', Entity = ''10.2'',
          Value = Fin 12, Unit = ''volts'', Type = ''voltage''\<rparr>]"
  using six_field_line_matches six_field_line_reading
  by (simp add: spec_exactlyFiveFields_def six_field_line_fields)

text \<open>
  C4, amended.  A line that, after trimming, is not of the shape \<open>fiveFieldShape\<close> (at
  least five fields between bars, the first, second and fourth not empty, the third one
  word with optional white space around it, and something after the fourth bar) does not
  match the pattern and contributes no reading.  A line of more than five fields is not
  rejected for that: what follows the fourth bar is the fifth field.  (The shape is
  exact: by \<open>FindStringSubmatch_iff_shape\<close> a line without a line feed matches the pattern
  if and only if it has the shape.)
\<close>

theorem C4_not_five_field_shape_rejected:
  assumes "\<not> fiveFieldShape (TrimSpace line0)"
  shows "FindStringSubmatch sensorRegex (TrimSpace line0) = []
         \<and> lineReadings line0 = []
         \<and> parseLines (line0 # lines) sensors = parseLines lines sensors"
proof -
  have m: "FindStringSubmatch sensorRegex (TrimSpace line0) = []"
    using assms by (rule FindStringSubmatch_shape)
  then have "lineReadings line0 = []"
    by (simp add: lineReadings_rejected)
  with m show ?thesis
    by (simp add: parseLines_Cons del: parseLines.simps)
qed

theorem C4_not_five_field_shape_rejected_witness:
  "\<not> fiveFieldShape (TrimSpace ''Fan3           | 06h | ok  | 1200 RPM'')
   \<and> FindStringSubmatch sensorRegex (TrimSpace ''Fan3           | 06h | ok  | 1200 RPM'') = []
   \<and> lineReadings ''Fan3           | 06h | ok  | 1200 RPM'' = []
   \<and> parseLines [''Fan3           | 06h | ok  | 1200 RPM''] [] = parseLines [] []"
proof -
  have h: "\<not> fiveFieldShape (TrimSpace ''Fan3           | 06h | ok  | 1200 RPM'')"
    using four_field_line_fields by (intro few_fields_not_shape) simp
  from C4_not_five_field_shape_rejected [OF h, of "[]" "[]"] h show ?thesis
    by (simp del: parseLines.simps)
qed

text \<open>
  C5.  When the bars cut a trimmed line into five fields (the fifth being all that follows
  the fourth bar) and the third field, trimmed, is not exactly \<open>ok\<close>, the line
  contributes no reading, whatever its value field holds.  The status that the program
  tests is the third group of the match, trimmed, which is the third field, trimmed.
\<close>

theorem C5_status_not_ok:
  assumes "TrimSpace line0 = f1 @ pipe # f2 @ pipe # f3 @ pipe # f4 @ pipe # f5"
    and "pipe \<notin> set f1" "pipe \<notin> set f2" "pipe \<notin> set f3" "pipe \<notin> set f4"
    and "TrimSpace f3 \<noteq> ''ok''"
  shows "lineReadings line0 = [] \<and> parseLines (line0 # lines) sensors = parseLines lines sensors"
proof -
  let ?m = "FindStringSubmatch sensorRegex (TrimSpace line0)"
  have "lineReadings line0 = []"
  proof (cases "?m = []")
    case True
    then show ?thesis by (simp add: lineReadings_rejected)
  next
    case False
    from FindStringSubmatch_fields [OF assms(1-5) refl False] assms(6)
    have "TrimSpace (?m ! 3) \<noteq> ''ok''" by simp
    then show ?thesis by (rule lineReadings_status)
  qed
  then show ?thesis by (simp add: parseLines_Cons del: parseLines.simps)
qed

theorem C5_status_not_ok_witness:
  "lineReadings ''CPU2 Temp      | 02h | ns  |  3.2 | 45 degrees C'' = [] \<and>
   parseLines [''CPU2 Temp      | 02h | ns  |  3.2 | 45 degrees C''] [] = parseLines [] []"
  by (rule C5_status_not_ok [OF ns_line_trimmed ns_line_facts])

text \<open>
  C6.  When the value field of a line (all that follows the fourth bar, trimmed) contains
  \<open>No Reading\<close>, the line contributes no reading, whether or not a unit keyword also occurs
  in the field; and the report line \<^verbatim>\<open>Fan1           | 04h | ok  |  7.1 | No Reading\<close>
  gives no reading.
\<close>

theorem C6_no_reading_marker:
  "(TrimSpace line0 = f1 @ pipe # f2 @ pipe # f3 @ pipe # f4 @ pipe # f5
    \<and> pipe \<notin> set f1 \<and> pipe \<notin> set f2 \<and> pipe \<notin> set f3 \<and> pipe \<notin> set f4
    \<and> Contains (TrimSpace f5) ''No Reading''
    \<longrightarrow> lineReadings line0 = [] \<and> parseLines (line0 # lines) sensors = parseLines lines sensors)
   \<and> parseSensorData ''Fan1           | 04h | ok  |  7.1 | No Reading'' = []"
proof -
  let ?m = "FindStringSubmatch sensorRegex (TrimSpace line0)"
  have "lineReadings line0 = []"
    if l: "TrimSpace line0 = f1 @ pipe # f2 @ pipe # f3 @ pipe # f4 @ pipe # f5"
      and p: "pipe \<notin> set f1" "pipe \<notin> set f2" "pipe \<notin> set f3" "pipe \<notin> set f4"
      and c: "Contains (TrimSpace f5) ''No Reading''"
  proof (cases "?m = []")
    case True
    then show ?thesis by (simp add: lineReadings_rejected)
  next
    case False
    from FindStringSubmatch_fields [OF l p refl False] c
    have "Contains (TrimSpace (?m ! 5)) ''No Reading''" by simp
    then show ?thesis by (rule lineReadings_no_reading)
  qed
  moreover have "parseSensorData ''Fan1           | 04h | ok  |  7.1 | No Reading'' = []"
    by code_simp
  ultimately show ?thesis
    by (simp add: parseLines_Cons del: parseLines.simps)
qed

theorem C6_no_reading_marker_witness:
  "Contains (TrimSpace '' 0 RPM (No Reading)'') ''No Reading''
   \<and> Contains (TrimSpace '' 0 RPM (No Reading)'') ''RPM''
   \<and> lineReadings ''Fan2           | 05h | ok  |  7.2 | 0 RPM (No Reading)'' = []
   \<and> parseSensorData ''Fan1           | 04h | ok  |  7.1 | No Reading'' = []"
proof -
  from C6_no_reading_marker [of "''Fan2           | 05h | ok  |  7.2 | 0 RPM (No Reading)''"
      "''Fan2           ''" "'' 05h ''" "'' ok  ''" "''  7.2 ''" "'' 0 RPM (No Reading)''" "[]" "[]"]
    marker_line_trimmed marker_line_facts(1-5)
  have "lineReadings ''Fan2           | 05h | ok  |  7.2 | 0 RPM (No Reading)'' = []"
    and "parseSensorData ''Fan1           | 04h | ok  |  7.1 | No Reading'' = []"
    by blast+
  with marker_line_facts(5,6) show ?thesis by (intro conjI)
qed

text \<open>
  C7.  The claim: a report of a valid voltage line, a malformed line and a valid
  temperature line updates exactly two points, and the malformed line affects nothing.
  With a line of six fields in between (malformed in the words of the specification: not
  exactly five fields) the claim fails: the pattern matches the line, and the pass writes
  a third point.
\<close>

theorem C7_six_field_line_counterexample:
  "\<not> spec_exactlyFiveFields
        (TrimSpace ''PS1 Status     | 0Bh | ok  | 10.2 | 12 Volts | Presence detected'')
   \<and> collectMetrics \<lparr>Host = ''bmc'', Username = ''admin'', Password = ''secret'', Port = 623\<rparr>
       (Inr (''12V            | 30h | ok  |  7.1 | 12.240 Volts'' @ newline #
             ''PS1 Status     | 0Bh | ok  | 10.2 | 12 Volts | Presence detected'' @ newline #
             ''CPU1 Temp      | 01h | ok  |  3.1 | 45 degrees C''))
       \<lparr>voltageGauge = Map.empty, temperatureGauge = Map.empty,
        fanGauge = Map.empty, powerGauge = Map.empty, currentGauge = Map.empty\<rparr>
     = Inr \<lparr>voltageGauge =
              [(''12V'', ''30h'', ''bmc'') \<mapsto> Fin (6890507429876859 / 562949953421312),
               (''PS1 Status'', ''0Bh'', ''bmc'') \<mapsto> Fin 12],
            temperatureGauge = [(''CPU1 Temp'', ''01h'', ''bmc'') \<mapsto> Fin 45],
            fanGauge = Map.empty, powerGauge = Map.empty, currentGauge = Map.empty\<rparr>"
proof -
  have "collectMetrics \<lparr>Host = ''bmc'', Username = ''admin'', Password = ''secret'', Port = 623\<rparr>
       (Inr (''12V            | 30h | ok  |  7.1 | 12.240 Volts'' @ newline #
             ''PS1 Status     | 0Bh | ok  | 10.2 | 12 Volts | Presence detected'' @ newline #
             ''CPU1 Temp      | 01h | ok  |  3.1 | 45 degrees C''))
       \<lparr>voltageGauge = Map.empty, temperatureGauge = Map.empty,
        fanGauge = Map.empty, powerGauge = Map.empty, currentGauge = Map.empty\<rparr>
     = Inr \<lparr>voltageGauge =
              [(''12V'', ''30h'', ''bmc'') \<mapsto> Fin (6890507429876859 / 562949953421312),
               (''PS1 Status'', ''0Bh'', ''bmc'') \<mapsto> Fin 12],
            temperatureGauge = [(''CPU1 Temp'', ''01h'', ''bmc'') \<mapsto> Fin 45],
            fanGauge = Map.empty, powerGauge = Map.empty, currentGauge = Map.empty\<rparr>"
    unfolding collectMetrics_def sum.case six_field_report_readings
    by (simp add: updateSensor_def SetGauge_def valid_label_examples)
  moreover have "\<not> spec_exactlyFiveFields
        (TrimSpace ''PS1 Status     | 0Bh | ok  | 10.2 | 12 Volts | Presence detected'')"
    by (simp add: spec_exactlyFiveFields_def six_field_line_fields)
  ultimately show ?thesis by (intro conjI)
qed

text \<open>
  C7, amended.  For a report of three lines, the first giving one voltage reading, the
  second not of the shape \<open>fiveFieldShape\<close> (a line that the pattern rejects), the third
  giving one temperature reading, with the host and the names and ids of the two readings
  valid UTF-8, one collection stores the voltage value in the voltage gauge and the
  temperature value in the temperature gauge, each under the name and the id of its line
  and the host, and leaves every other value of every gauge as it was.
\<close>

theorem C7_two_points_updated:
  assumes "newline \<notin> set l1" "newline \<notin> set l2" "newline \<notin> set l3"
    and "parseSensorData l1 = [v]" "Type v = ''voltage''"
    and "\<not> fiveFieldShape (TrimSpace l2)"
    and "parseSensorData l3 = [t]" "Type t = ''temperature''"
    and "ValidString (Name v)" "ValidString (ID v)" "ValidString (Name t)" "ValidString (ID t)"
    and "ValidString (Host config)"
  shows "collectMetrics config (Inr (l1 @ newline # l2 @ newline # l3)) registry0 =
           Inr (registry0\<lparr>voltageGauge :=
                        (voltageGauge registry0)((Name v, ID v, Host config) \<mapsto> Value v),
                     temperatureGauge :=
                        (temperatureGauge registry0)((Name t, ID t, Host config) \<mapsto> Value t)\<rparr>)"
proof -
  have "lineReadings l2 = []"
    using FindStringSubmatch_shape [OF assms(6)] by (simp add: lineReadings_rejected)
  moreover have "lineReadings l1 = [v]" "lineReadings l3 = [t]"
    using assms(1,3,4,7) by (simp_all add: parseSensorData_one_line)
  ultimately have "parseSensorData (l1 @ newline # l2 @ newline # l3) = [v, t]"
    using assms(1-3) by (simp add: parseSensorData_def Split_three parseLines_concat)
  then show ?thesis
    using updateMetrics_two [OF assms(5,8,9-13)]
    by (simp add: collectMetrics_def del: updateMetrics.simps)
qed

theorem C7_two_points_updated_witness:
  "collectMetrics \<lparr>Host = ''bmc'', Username = ''admin'', Password = ''secret'', Port = 623\<rparr>
     (Inr (''12V            | 30h | ok  |  7.1 | 12.240 Volts'' @ newline #
           ''Sensor Data Repository: 2 records'' @ newline #
           ''CPU1 Temp      | 01h | ok  |  3.1 | 45 degrees C''))
     \<lparr>voltageGauge = Map.empty, temperatureGauge = Map.empty,
      fanGauge = Map.empty, powerGauge = Map.empty, currentGauge = Map.empty\<rparr>
   = Inr \<lparr>voltageGauge = [(''12V'', ''30h'', ''bmc'') \<mapsto> Fin (6890507429876859 / 562949953421312)],
      temperatureGauge = [(''CPU1 Temp'', ''01h'', ''bmc'') \<mapsto> Fin 45],
      fanGauge = Map.empty, powerGauge = Map.empty, currentGauge = Map.empty\<rparr>"
  using C7_two_points_updated [OF no_newline_examples voltage_line_example _
          malformed_line_example cpu_line_example, 
          of "\<lparr>Host = ''bmc'', Username = ''admin'', Password = ''secret'', Port = 623\<rparr>"
             "\<lparr>voltageGauge = Map.empty, temperatureGauge = Map.empty,
      fanGauge = Map.empty, powerGauge = Map.empty, currentGauge = Map.empty\<rparr>"]
    valid_label_examples
  by simp

text \<open>
  C8.  \<open>parseValue\<close> maps \<open>12.240 Volts\<close> to the float64 of the constant 12.24 (which is
  \<open>6890507429876859 / 2^49\<close>) with unit \<open>volts\<close> and type \<open>voltage\<close>, maps \<open>850 RPM\<close>
  to \<open>(850, rpm, fan)\<close>, and maps \<open>N/A\<close> to the zero value with the empty unit, on which
  the parser of the report drops the line.
\<close>

theorem C8_classifier_examples:
  "parseValue ''12.240 Volts'' = (Fin (6890507429876859 / 562949953421312), ''volts'', ''voltage'')
   \<and> float64_of_rat (1224 / 100) = Inr (Fin (6890507429876859 / 562949953421312))
   \<and> parseValue ''850 RPM'' = (Fin 850, ''rpm'', ''fan'')
   \<and> parseValue ''N/A'' = (Fin 0, [], [])
   \<and> parseSensorData ''PSU1 Status    | 05h | ok  | 10.1 | N/A'' = []"
  using parseValue_volts_example float64_of_12_24 parseValue_rpm_example
    parseValue_na_example parseSensorData_na_example
  by (intro conjI)

text \<open>
  C9.  Every reading that \<open>parseSensorData\<close> returns has one of the five units with the
  type that belongs to it; its unit and its type are not empty, so no reading has the
  empty unit with the value zero.
\<close>

theorem C9_units_of_readings:
  assumes "r \<in> set (parseSensorData sdrData)"
  shows "(Unit r, Type r) \<in> {(''volts'', ''voltage''), (''celsius'', ''temperature''),
            (''rpm'', ''fan''), (''watts'', ''power''), (''amperes'', ''current'')}
         \<and> Unit r \<noteq> [] \<and> Type r \<noteq> [] \<and> \<not> (isZero (Value r) \<and> Unit r = [])"
  using parseLines_units [of r "Split sdrData newline"] assms
  by (auto simp: parseSensorData_def unitPairs_def)

theorem C9_units_of_readings_witness:
  "\<lparr>Name = ''CPU1 Temp'', ID = ''01h'', Status = ''ok'', Entity = ''3.1'',
       Value = Fin 45, Unit = ''celsius'', Type = ''temperature''\<rparr>
     \<in> set (parseSensorData ''CPU1 Temp      | 01h | ok  |  3.1 | 45 degrees C'')
   \<and> (''celsius'', ''temperature'') \<in> {(''volts'', ''voltage''), (''celsius'', ''temperature''),
            (''rpm'', ''fan''), (''watts'', ''power''), (''amperes'', ''current'')}"
proof -
  have m: "\<lparr>Name = ''CPU1 Temp'', ID = ''01h'', Status = ''ok'', Entity = ''3.1'',
       Value = Fin 45, Unit = ''celsius'', Type = ''temperature''\<rparr>
     \<in> set (parseSensorData ''CPU1 Temp      | 01h | ok  |  3.1 | 45 degrees C'')"
    by (simp add: cpu_line_example)
  from C9_units_of_readings [OF m] m show ?thesis by simp
qed

text \<open>
  C10.  A line of the five-field shape with status \<open>ok\<close>, without \<open>No Reading\<close> in its
  value field, whose value field holds a unit keyword and starts with a token that parses
  to zero (of either sign), contributes a reading with that zero value, the unit and type
  of the first keyword (in the order of \<open>parseValue\<close>) that the field holds, and the
  trimmed first, second and fourth fields as name, id and entity.
\<close>

theorem C10_zero_reading_kept:
  assumes "fiveFieldShape (TrimSpace line0)" "newline \<notin> set line0"
    and "TrimSpace line0 = f1 @ pipe # f2 @ pipe # f3 @ pipe # f4 @ pipe # f5"
    and "pipe \<notin> set f1" "pipe \<notin> set f2" "pipe \<notin> set f3" "pipe \<notin> set f4"
    and "TrimSpace f3 = ''ok''"
    and "valueStr = TrimSpace f5"
    and "\<not> Contains valueStr ''No Reading''"
    and "Fields valueStr = tok # toks" "ParseFloat tok = Inr z" "isZero z"
    and "unitOf valueStr = Some (u, t)"
  shows "parseLines (line0 # lines) sensors =
           parseLines lines
             (sensors @
              [\<lparr>Name = TrimSpace f1, ID = TrimSpace f2, Status = ''ok'',
                Entity = TrimSpace f4, Value = z, Unit = u, Type = t\<rparr>])
         \<and> (u, t) \<in> set unitPairs"
proof -
  let ?m = "FindStringSubmatch sensorRegex (TrimSpace line0)"
  have "newline \<notin> set (TrimSpace line0)"
    using assms(2) set_TrimSpace [of line0] by auto
  with assms(1) have ne: "?m \<noteq> []"
    by (simp add: FindStringSubmatch_iff_shape)
  note m = FindStringSubmatch_fields [OF assms(3-7) refl ne]
  have pv: "parseValue (TrimSpace (?m ! 5)) = (z, u, t)"
    using assms(9,11,12,14) m by (intro parseValue_unitOf) (simp_all add: TrimSpace_idem)
  have ut: "(u, t) \<in> set unitPairs"
    using assms(14) by (rule unitOf_unitPairs)
  then have "u \<noteq> []" by (auto simp: unitPairs_def)
  from lineReadings_emitted [OF refl _ _ _ pv this] m assms(8,9,10) ut show ?thesis
    by (simp add: parseLines_Cons del: parseLines.simps)
qed

theorem C10_zero_reading_kept_witness:
  "parseLines [''PS1 Power      | 0Ah | ok  | 10.1 | 0 Watts''] [] =
     [\<lparr>Name = ''PS1 Power'', ID = ''0Ah'', Status = ''ok'', Entity = ''10.1'',
       Value = Fin 0, Unit = ''watts'', Type = ''power''\<rparr>]
   \<and> isZero (Fin 0)"
  using C10_zero_reading_kept [OF watts_line_shape watts_line_trimmed watts_line_fields, of "[]" "[]"]
    watts_line_fields(10) watts_line_trims
  by (simp del: parseLines.simps(2))

end
